theory Spec2Isabelle
  imports Main "HOL-Library.Sublist" "HOL-Library.Multiset"
begin

section \<open>Python strings\<close>

text \<open>
  A Python \<open>str\<close> is modelled as a \<^typ>\<open>string\<close>: the list of its code points,
  for code points below 256. The primitives below are the \<open>str\<close> methods that
  \<open>onefilellm.py\<close> and \<open>urllib.parse\<close> call, with the behaviour CPython gives them
  on that range.
\<close>

definition dq :: string where
  "dq = [CHR 0x22]"

definition startswith :: "string \<Rightarrow> string \<Rightarrow> bool" where
  "startswith s p \<longleftrightarrow> prefix p s"

definition endswith :: "string \<Rightarrow> string \<Rightarrow> bool" where
  "endswith s p \<longleftrightarrow> suffix p s"

text \<open>\<open>sub in s\<close>: \<open>sub\<close> occurs in \<open>s\<close> as a contiguous run.\<close>

fun py_in :: "string \<Rightarrow> string \<Rightarrow> bool" where
  "py_in sub [] = (sub = [])"
| "py_in sub (c # cs) = (prefix sub (c # cs) \<or> py_in sub cs)"

text \<open>\<open>s.find(c)\<close> for a single character; \<open>None\<close> stands for \<open>-1\<close>.\<close>

fun py_find :: "char \<Rightarrow> string \<Rightarrow> nat option" where
  "py_find c [] = None"
| "py_find c (x # xs) = (if x = c then Some 0 else map_option Suc (py_find c xs))"

text \<open>\<open>s.split(c)\<close> for a single-character separator: never the empty list.\<close>

fun py_split :: "char \<Rightarrow> string \<Rightarrow> string list" where
  "py_split c [] = [[]]"
| "py_split c (x # xs) =
     (if x = c then [] # py_split c xs
      else (x # hd (py_split c xs)) # tl (py_split c xs))"

text \<open>\<open>s.split(c, 1)\<close> when \<open>c\<close> occurs in \<open>s\<close>: the parts before and after its
  first occurrence.\<close>

definition split_first :: "char \<Rightarrow> string \<Rightarrow> string \<times> string" where
  "split_first c s = (takeWhile (\<lambda>x. x \<noteq> c) s, tl (dropWhile (\<lambda>x. x \<noteq> c) s))"

definition rstrip_char :: "char \<Rightarrow> string \<Rightarrow> string" where
  "rstrip_char c s = rev (dropWhile (\<lambda>x. x = c) (rev s))"

text \<open>\<open>str.isspace\<close> on one character.\<close>

definition py_isspace :: "char \<Rightarrow> bool" where
  "py_isspace c \<longleftrightarrow> c \<in> set [CHR 0x09, CHR 0x0A, CHR 0x0B, CHR 0x0C, CHR 0x0D,
     CHR 0x1C, CHR 0x1D, CHR 0x1E, CHR 0x1F, CHR 0x20, CHR 0x85, CHR 0xA0]"

definition py_strip :: "string \<Rightarrow> string" where
  "py_strip s = rev (dropWhile py_isspace (rev (dropWhile py_isspace s)))"

definition upper_letters :: string where
  "upper_letters = ''ABCDEFGHIJKLMNOPQRSTUVWXYZ'' @
     [CHR 0xC0, CHR 0xC1, CHR 0xC2, CHR 0xC3, CHR 0xC4, CHR 0xC5, CHR 0xC6, CHR 0xC7,
      CHR 0xC8, CHR 0xC9, CHR 0xCA, CHR 0xCB, CHR 0xCC, CHR 0xCD, CHR 0xCE, CHR 0xCF,
      CHR 0xD0, CHR 0xD1, CHR 0xD2, CHR 0xD3, CHR 0xD4, CHR 0xD5, CHR 0xD6,
      CHR 0xD8, CHR 0xD9, CHR 0xDA, CHR 0xDB, CHR 0xDC, CHR 0xDD, CHR 0xDE]"

definition lower_letters :: string where
  "lower_letters = ''abcdefghijklmnopqrstuvwxyz'' @
     [CHR 0xE0, CHR 0xE1, CHR 0xE2, CHR 0xE3, CHR 0xE4, CHR 0xE5, CHR 0xE6, CHR 0xE7,
      CHR 0xE8, CHR 0xE9, CHR 0xEA, CHR 0xEB, CHR 0xEC, CHR 0xED, CHR 0xEE, CHR 0xEF,
      CHR 0xF0, CHR 0xF1, CHR 0xF2, CHR 0xF3, CHR 0xF4, CHR 0xF5, CHR 0xF6,
      CHR 0xF8, CHR 0xF9, CHR 0xFA, CHR 0xFB, CHR 0xFC, CHR 0xFD, CHR 0xFE]"

definition lower_char :: "char \<Rightarrow> char" where
  "lower_char c = (case map_of (zip upper_letters lower_letters) c of None \<Rightarrow> c | Some d \<Rightarrow> d)"

definition py_lower :: "string \<Rightarrow> string" where
  "py_lower s = map lower_char s"

text \<open>\<open>sep.join(xs)\<close>.\<close>

fun py_join :: "string \<Rightarrow> string list \<Rightarrow> string" where
  "py_join sep [] = []"
| "py_join sep [x] = x"
| "py_join sep (x # y # ys) = x @ sep @ py_join sep (y # ys)"

text \<open>\<open>str(n)\<close> for a natural number.\<close>

fun str_nat :: "nat \<Rightarrow> string" where
  "str_nat n = (if n < 10 then [''0123456789'' ! n]
                else str_nat (n div 10) @ [''0123456789'' ! (n mod 10)])"

declare str_nat.simps [simp del]

text \<open>\<open>html.escape(s, quote=True)\<close>: the five replacements, \<open>&\<close> first.\<close>

definition escape_char :: "char \<Rightarrow> string" where
  "escape_char c =
     (if c = CHR ''&'' then ''&amp;''
      else if c = CHR ''<'' then ''&lt;''
      else if c = CHR ''>'' then ''&gt;''
      else if c = CHR 0x22 then ''&quot;''
      else if c = CHR 0x27 then ''&#x27;''
      else [c])"

definition escape_xml :: "string \<Rightarrow> string" where
  "escape_xml text = concat (map escape_char text)"

section \<open>Exceptions\<close>

text \<open>
  A raised exception is a value. \<open>process_web_pdf\<close> tells a
  \<open>requests.RequestException\<close> from any other exception; \<open>urlsplit\<close> and
  \<open>dispatch_processing\<close> raise \<open>ValueError\<close>; reading a local variable that no
  assignment has reached raises \<open>UnboundLocalError\<close>, which carries the name of the
  variable. The string is \<open>str(e)\<close>.
\<close>

datatype exn = ValueError string | RequestException string | FileNotFoundError string
  | UnboundLocalError string | OtherException string

fun exn_str :: "exn \<Rightarrow> string" where
  "exn_str (ValueError m) = m"
| "exn_str (RequestException m) = m"
| "exn_str (FileNotFoundError m) = m"
| "exn_str (UnboundLocalError v) =
     ''cannot access local variable '' @ [CHR 0x27] @ v @ [CHR 0x27]
       @ '' where it is not associated with a value''"
| "exn_str (OtherException m) = m"

section \<open>PDF text extraction\<close>

text \<open>
  A page of a \<open>PdfReader\<close>: \<open>extract_text()\<close> returns its text (possibly empty) or
  raises.
\<close>

datatype pdf_page = PageText string | PageRaises string

definition no_pages_marker :: string where
  "no_pages_marker = ''<e>PDF file has no pages or could not be read (possibly encrypted).</e>''"

definition no_text_marker :: string where
  "no_text_marker = ''<e>No text could be extracted from PDF.</e>''"

definition page_error_marker :: "nat \<Rightarrow> string \<Rightarrow> string" where
  "page_error_marker i msg =
     ''\<newline><e>Error extracting text from page '' @ str_nat (i + 1) @ '': '' @ escape_xml msg @ ''</e>\<newline>''"

text \<open>The \<open>for i, page_obj in enumerate(pdf_reader.pages)\<close> loop, with \<open>text_list\<close> as
  accumulator.\<close>

fun pdf_pages_loop :: "nat \<Rightarrow> pdf_page list \<Rightarrow> string list \<Rightarrow> string list" where
  "pdf_pages_loop i [] text_list = text_list"
| "pdf_pages_loop i (PageText page_text # ps) text_list =
     pdf_pages_loop (i + 1) ps (if page_text \<noteq> [] then text_list @ [page_text] else text_list)"
| "pdf_pages_loop i (PageRaises page_e # ps) text_list =
     pdf_pages_loop (i + 1) ps (text_list @ [page_error_marker i page_e])"

definition extract_text_from_pdf_object :: "pdf_page list \<Rightarrow> string" where
  "extract_text_from_pdf_object pages =
     (if pages = [] then no_pages_marker
      else let text_list = pdf_pages_loop 0 pages []
           in if text_list = [] then no_text_marker else py_join '' '' text_list)"

text \<open>The vocabulary of the claim about partial extraction.\<close>

fun yields_text :: "pdf_page \<Rightarrow> bool" where
  "yields_text (PageText t) = (t \<noteq> [])"
| "yields_text (PageRaises e) = False"

fun fails_extraction :: "pdf_page \<Rightarrow> bool" where
  "fails_extraction (PageText t) = False"
| "fails_extraction (PageRaises e) = True"

definition whole_document_error :: "string \<Rightarrow> bool" where
  "whole_document_error r \<longleftrightarrow> r = no_pages_marker \<or> r = no_text_marker"

definition pdf_overall_success :: "pdf_page list \<Rightarrow> bool" where
  "pdf_overall_success pages \<longleftrightarrow> \<not> whole_document_error (extract_text_from_pdf_object pages)"

text \<open>What page number \<open>i\<close> (counted from 0) contributes to the result, if anything.\<close>

fun page_entry :: "nat \<times> pdf_page \<Rightarrow> string option" where
  "page_entry (i, PageText t) = (if t \<noteq> [] then Some t else None)"
| "page_entry (i, PageRaises e) = Some (page_error_marker i e)"

definition page_entries :: "pdf_page list \<Rightarrow> string list" where
  "page_entries pages = List.map_filter page_entry (enumerate 0 pages)"

section \<open>URL parsing (\<open>urllib.parse\<close>)\<close>

text \<open>
  \<open>urlparse\<close>, \<open>urlsplit\<close>, \<open>urlunsplit\<close> and \<open>ParseResult.geturl\<close> as CPython
  3.11.10 defines them. Two checks of \<open>urlsplit\<close> are not string manipulation:
  \<open>_check_bracketed_host\<close> validates an IP literal with the \<open>ipaddress\<close> module, and is
  a parameter here (\<open>Some msg\<close> when it raises \<open>ValueError(msg)\<close>); \<open>_checknetloc\<close>
  rejects a host whose NFKC normal form contains one of \<open>/?#@:\<close>, which no code point
  below 256 produces, so it never raises on the strings of this model.
\<close>

record parse_result =
  scheme :: string
  netloc :: string
  path :: string
  params :: string
  query :: string
  fragment :: string

definition uses_netloc :: "string list" where
  "uses_netloc = ['''', ''ftp'', ''http'', ''gopher'', ''nntp'', ''telnet'',
     ''imap'', ''wais'', ''file'', ''mms'', ''https'', ''shttp'',
     ''snews'', ''prospero'', ''rtsp'', ''rtsps'', ''rtspu'', ''rsync'',
     ''svn'', ''svn+ssh'', ''sftp'', ''nfs'', ''git'', ''git+ssh'',
     ''ws'', ''wss'']"

definition uses_params :: "string list" where
  "uses_params = ['''', ''ftp'', ''hdl'', ''prospero'', ''http'', ''imap'',
     ''https'', ''shttp'', ''rtsp'', ''rtsps'', ''rtspu'', ''sip'',
     ''sips'', ''mms'', ''sftp'', ''tel'']"

definition ascii_letters :: string where
  "ascii_letters = ''abcdefghijklmnopqrstuvwxyzABCDEFGHIJKLMNOPQRSTUVWXYZ''"

definition scheme_chars :: string where
  "scheme_chars = ''abcdefghijklmnopqrstuvwxyzABCDEFGHIJKLMNOPQRSTUVWXYZ0123456789+-.''"

text \<open>\<open>_WHATWG_C0_CONTROL_OR_SPACE\<close>: the code points 0 to 32.\<close>

definition c0_control_or_space :: "char \<Rightarrow> bool" where
  "c0_control_or_space c \<longleftrightarrow> (of_char c :: nat) \<le> 32"

text \<open>\<open>_UNSAFE_URL_BYTES_TO_REMOVE\<close>: tab, carriage return, line feed.\<close>

definition unsafe_url_bytes :: string where
  "unsafe_url_bytes = [CHR 0x09, CHR 0x0D, CHR 0x0A]"

definition strip_url :: "string \<Rightarrow> string" where
  "strip_url url = filter (\<lambda>c. c \<notin> set unsafe_url_bytes) (dropWhile c0_control_or_space url)"

text \<open>The scheme test of \<open>urlsplit\<close>: \<open>i = url.find(':')\<close>, \<open>i > 0\<close>, an ASCII letter
  first and only scheme characters before the colon.\<close>

definition split_scheme :: "string \<Rightarrow> string \<times> string" where
  "split_scheme url =
     (case py_find CHR '':'' url of
        None \<Rightarrow> ('''', url)
      | Some i \<Rightarrow>
          if 0 < i \<and> hd url \<in> set ascii_letters \<and> (\<forall>c \<in> set (take i url). c \<in> set scheme_chars)
          then (py_lower (take i url), drop (i + 1) url)
          else ('''', url))"

text \<open>\<open>_splitnetloc(url, 2)\<close>: the host part runs from index 2 to the earliest of the
  delimiters \<open>/\<close>, \<open>?\<close>, \<open>#\<close>, or to the end.\<close>

definition netloc_delim :: "char \<Rightarrow> bool" where
  "netloc_delim c \<longleftrightarrow> c = CHR ''/'' \<or> c = CHR ''?'' \<or> c = CHR ''#''"

definition splitnetloc2 :: "string \<Rightarrow> string \<times> string" where
  "splitnetloc2 url =
     (takeWhile (\<lambda>c. \<not> netloc_delim c) (drop 2 url), dropWhile (\<lambda>c. \<not> netloc_delim c) (drop 2 url))"

text \<open>\<open>netloc.partition('[')[2].partition(']')[0]\<close>.\<close>

definition bracketed_host :: "string \<Rightarrow> string" where
  "bracketed_host nl =
     takeWhile (\<lambda>c. c \<noteq> CHR '']'') (tl (dropWhile (\<lambda>c. c \<noteq> CHR ''['') nl))"

definition check_netloc_brackets :: "(string \<Rightarrow> string option) \<Rightarrow> string \<Rightarrow> exn option" where
  "check_netloc_brackets check_bracketed_host nl =
     (if (CHR ''['' \<in> set nl \<and> CHR '']'' \<notin> set nl) \<or> (CHR '']'' \<in> set nl \<and> CHR ''['' \<notin> set nl)
      then Some (ValueError ''Invalid IPv6 URL'')
      else if CHR ''['' \<in> set nl \<and> CHR '']'' \<in> set nl
      then map_option ValueError (check_bracketed_host (bracketed_host nl))
      else None)"

definition split_fragment :: "string \<Rightarrow> string \<times> string" where
  "split_fragment url = (if CHR ''#'' \<in> set url then split_first CHR ''#'' url else (url, ''''))"

definition split_query :: "string \<Rightarrow> string \<times> string" where
  "split_query url = (if CHR ''?'' \<in> set url then split_first CHR ''?'' url else (url, ''''))"

text \<open>\<open>urlsplit(url)\<close>: scheme, netloc, path, query, fragment, or \<open>ValueError\<close>.\<close>

definition urlsplit ::
  "(string \<Rightarrow> string option) \<Rightarrow> string \<Rightarrow> exn + (string \<times> string \<times> string \<times> string \<times> string)" where
  "urlsplit check_bracketed_host url0 =
     (let (sch, url1) = split_scheme (strip_url url0);
          (nl, url2) = (if take 2 url1 = ''//'' then splitnetloc2 url1 else ('''', url1))
      in case check_netloc_brackets check_bracketed_host nl of
           Some e \<Rightarrow> Inl e
         | None \<Rightarrow>
             let (url3, frag) = split_fragment url2;
                 (url4, qry) = split_query url3
             in Inr (sch, nl, url4, qry, frag))"

text \<open>\<open>s.rfind(c)\<close> and \<open>s.find(c, start)\<close> for \<open>start \<le> len(s)\<close>.\<close>

definition py_rfind :: "char \<Rightarrow> string \<Rightarrow> nat option" where
  "py_rfind c s = map_option (\<lambda>k. length s - 1 - k) (py_find c (rev s))"

definition py_find_from :: "char \<Rightarrow> nat \<Rightarrow> string \<Rightarrow> nat option" where
  "py_find_from c start s = map_option (\<lambda>k. start + k) (py_find c (drop start s))"

text \<open>\<open>_splitparams\<close>, called only when \<open>;\<close> occurs in \<open>url\<close>: without a \<open>/\<close> the
  parameters start at the first \<open>;\<close>, with one at the first \<open>;\<close> of the last segment.\<close>

definition splitparams :: "string \<Rightarrow> string \<times> string" where
  "splitparams url =
     (case py_rfind CHR ''/'' url of
        Some j \<Rightarrow>
          (case py_find_from CHR '';'' j url of
             None \<Rightarrow> (url, '''')
           | Some i \<Rightarrow> (take i url, drop (i + 1) url))
      | None \<Rightarrow>
          (case py_find CHR '';'' url of
             Some i \<Rightarrow> (take i url, drop (i + 1) url)
           | None \<Rightarrow> (butlast url, url)))"

definition urlparse :: "(string \<Rightarrow> string option) \<Rightarrow> string \<Rightarrow> exn + parse_result" where
  "urlparse check_bracketed_host url0 =
     (case urlsplit check_bracketed_host url0 of
        Inl e \<Rightarrow> Inl e
      | Inr (sch, nl, url, qry, frag) \<Rightarrow>
          let (url', prm) = (if sch \<in> set uses_params \<and> CHR '';'' \<in> set url
                             then splitparams url else (url, ''''))
          in Inr \<lparr>scheme = sch, netloc = nl, path = url', params = prm,
                  query = qry, fragment = frag\<rparr>)"

definition urlunsplit :: "string \<Rightarrow> string \<Rightarrow> string \<Rightarrow> string \<Rightarrow> string \<Rightarrow> string" where
  "urlunsplit sch nl url0 qry frag =
     (let url1 = (if nl \<noteq> '''' \<or> (sch \<noteq> '''' \<and> sch \<in> set uses_netloc) \<or> take 2 url0 = ''//''
                  then ''//'' @ nl @ (if url0 \<noteq> '''' \<and> take 1 url0 \<noteq> ''/'' then ''/'' @ url0 else url0)
                  else url0);
          url2 = (if sch \<noteq> '''' then sch @ '':'' @ url1 else url1);
          url3 = (if qry \<noteq> '''' then url2 @ ''?'' @ qry else url2)
      in if frag \<noteq> '''' then url3 @ ''#'' @ frag else url3)"

text \<open>\<open>ParseResult.geturl()\<close>, that is \<open>urlunparse(self)\<close>.\<close>

definition geturl :: "parse_result \<Rightarrow> string" where
  "geturl p =
     urlunsplit (scheme p) (netloc p)
       (if params p \<noteq> '''' then path p @ '';'' @ params p else path p) (query p) (fragment p)"

section \<open>Crawl scope and normalisation\<close>

text \<open>Lines 596 and 597 of \<open>crawl_and_extract_text\<close>: the URL without its fragment,
  with \<open>http://\<close> in front when it has no scheme.\<close>

definition normalize_url :: "(string \<Rightarrow> string option) \<Rightarrow> string \<Rightarrow> exn + string" where
  "normalize_url cbh curr_url =
     (case urlparse cbh curr_url of
        Inl e \<Rightarrow> Inl e
      | Inr parsed \<Rightarrow>
          let clean_url = geturl (parsed\<lparr>fragment := ''''\<rparr>)
          in Inr (if scheme parsed = '''' then ''http://'' @ clean_url else clean_url))"

definition is_same_domain :: "(string \<Rightarrow> string option) \<Rightarrow> string \<Rightarrow> string \<Rightarrow> exn + bool" where
  "is_same_domain cbh base new =
     (case urlparse cbh base of
        Inl e \<Rightarrow> Inl e
      | Inr pb \<Rightarrow>
          (case urlparse cbh new of
             Inl e \<Rightarrow> Inl e
           | Inr pn \<Rightarrow> Inr (netloc pb = netloc pn)))"

text \<open>\<open>len(p.split('/')) if p else 0\<close>.\<close>

definition segment_count :: "string \<Rightarrow> int" where
  "segment_count p = (if p \<noteq> '''' then int (length (py_split CHR ''/'' p)) else 0)"

definition is_within_depth ::
  "(string \<Rightarrow> string option) \<Rightarrow> string \<Rightarrow> string \<Rightarrow> int \<Rightarrow> exn + bool" where
  "is_within_depth cbh base current max_depth =
     (case urlparse cbh base of
        Inl e \<Rightarrow> Inl e
      | Inr pb \<Rightarrow>
          (case urlparse cbh current of
             Inl e \<Rightarrow> Inl e
           | Inr pc \<Rightarrow>
               let base_p = rstrip_char CHR ''/'' (path pb);
                   current_p = rstrip_char CHR ''/'' (path pc)
               in if \<not> startswith current_p base_p then Inr False
                  else Inr (segment_count current_p - segment_count base_p \<le> max_depth)))"

section \<open>The web, as the crawl sees it\<close>

text \<open>
  What the crawl reads from outside is a parameter.
  \<^item> \<open>http_get url\<close> stands for \<open>requests.get(url, ...)\<close>, \<open>raise_for_status()\<close> and
    the \<open>BeautifulSoup\<close> parse: it raises, or gives the \<open>Content-Type\<close> header, the
    text left after the non-content elements and comments are removed, and the
    \<open>href\<close> of every anchor that has one, in document order.
  \<^item> \<open>pdf_get url\<close> stands for the download in \<open>process_web_pdf\<close>: it raises, or gives
    the \<open>Content-Type\<close> header and what \<open>PdfReader\<close> makes of the body (an exception or
    the pages).
  \<^item> \<open>urljoin\<close> is \<open>urllib.parse.urljoin\<close>; \<open>check_bracketed_host\<close> is explained above.
\<close>

record http_response =
  content_type :: "string option"
  page_text :: string
  hrefs :: "string list"

record pdf_response =
  pdf_content_type :: "string option"
  pdf_reader :: "exn + pdf_page list"

record web =
  check_bracketed_host :: "string \<Rightarrow> string option"
  urljoin :: "string \<Rightarrow> string \<Rightarrow> exn + string"
  http_get :: "string \<Rightarrow> exn + http_response"
  pdf_get :: "string \<Rightarrow> exn + pdf_response"

section \<open>\<open>process_web_pdf\<close>\<close>

fun web_pdf_failure :: "exn \<Rightarrow> string" where
  "web_pdf_failure (RequestException m) = ''<error>Failed to download PDF: '' @ escape_xml m @ ''</error>''"
| "web_pdf_failure e = ''<error>Failed to process PDF: '' @ escape_xml (exn_str e) @ ''</error>''"

definition header_or :: "string option \<Rightarrow> string \<Rightarrow> string" where
  "header_or h dflt = (case h of None \<Rightarrow> dflt | Some v \<Rightarrow> v)"

definition process_web_pdf :: "web \<Rightarrow> string \<Rightarrow> string" where
  "process_web_pdf W url =
     (case pdf_get W url of
        Inl e \<Rightarrow> web_pdf_failure e
      | Inr response \<Rightarrow>
          if \<not> py_in ''application/pdf'' (py_lower (header_or (pdf_content_type response) ''''))
          then ''<error>Skipped non-PDF content reported at PDF URL.</error>''
          else (case pdf_reader response of
                  Inl e \<Rightarrow> web_pdf_failure e
                | Inr pages \<Rightarrow> extract_text_from_pdf_object pages))"

section \<open>The crawl engine: \<open>crawl_and_extract_text\<close>\<close>

record config =
  base_url :: string
  max_depth :: int
  include_pdfs :: bool
  ignore_epubs :: bool

text \<open>
  One entry of the output: the URL of the page, the depth of the frontier entry it was
  dequeued as, and the text placed between the opening tag and \<open></page>\<close>.
  \<open>page_xml\<close> is the string the code appends to \<open>all_text_xml\<close>.
\<close>

record page_record =
  page_url :: string
  page_depth :: int
  page_body :: string

definition page_xml :: "page_record \<Rightarrow> string" where
  "page_xml r = ''\<newline><page url='' @ dq @ escape_xml (page_url r) @ dq @ ''>'' @ page_body r @ ''</page>''"

text \<open>
  The variables of the loop. \<open>visited\<close> is the Python set, kept as the list of the
  arguments of its \<open>add\<close> calls in order; membership is membership in that list.
  \<open>processed_content\<close> is the dict, as the list of its items in insertion order.
\<close>

record crawl_state =
  visited :: "string list"
  to_visit :: "(string \<times> int) list"
  page_records :: "page_record list"
  processed_content :: "(string \<times> string) list"

definition initial_state :: "string \<Rightarrow> crawl_state" where
  "initial_state base = \<lparr>visited = [], to_visit = [(base, 0)], page_records = [], processed_content = []\<rparr>"

text \<open>\<open>d[k] = v\<close> on a dict.\<close>

fun dict_set :: "'k \<Rightarrow> 'v \<Rightarrow> ('k \<times> 'v) list \<Rightarrow> ('k \<times> 'v) list" where
  "dict_set k v [] = [(k, v)]"
| "dict_set k v (p # ps) = (if fst p = k then (k, v) # ps else p # dict_set k v ps)"

text \<open>Lines 624 to 627: the absolute URL of a link, without its fragment. Any of the
  library calls may raise.\<close>

definition link_target :: "web \<Rightarrow> string \<Rightarrow> string \<Rightarrow> exn + string" where
  "link_target W clean_url new_raw =
     (case urljoin W clean_url new_raw of
        Inl e \<Rightarrow> Inl e
      | Inr new_url \<Rightarrow>
          (case urlparse (check_bracketed_host W) new_url of
             Inl e \<Rightarrow> Inl e
           | Inr parsed_new \<Rightarrow>
               (case (if scheme parsed_new = ''''
                      then (case urlparse (check_bracketed_host W) clean_url of
                              Inl e \<Rightarrow> Inl e
                            | Inr pc \<Rightarrow> Inr (geturl (parsed_new\<lparr>scheme := scheme pc\<rparr>)))
                      else Inr new_url) of
                  Inl e \<Rightarrow> Inl e
                | Inr new_url' \<Rightarrow>
                    (case urlparse (check_bracketed_host W) new_url' of
                       Inl e \<Rightarrow> Inl e
                     | Inr p \<Rightarrow> Inr (geturl (p\<lparr>fragment := ''''\<rparr>))))))"

text \<open>The condition of line 628, evaluated left to right.\<close>

definition link_in_scope :: "web \<Rightarrow> config \<Rightarrow> string list \<Rightarrow> string \<Rightarrow> exn + bool" where
  "link_in_scope W cfg vis new_clean =
     (if new_clean \<in> set vis then Inr False
      else (case is_same_domain (check_bracketed_host W) (base_url cfg) new_clean of
              Inl e \<Rightarrow> Inl e
            | Inr same \<Rightarrow>
                if \<not> same then Inr False
                else (case is_within_depth (check_bracketed_host W) (base_url cfg) new_clean (max_depth cfg) of
                        Inl e \<Rightarrow> Inl e
                      | Inr within \<Rightarrow>
                          Inr (within \<and> \<not> (ignore_epubs cfg \<and> endswith (py_lower new_clean) ''.epub'')))))"

text \<open>The body of \<open>for link in soup.find_all('a', href=True)\<close>, lines 621 to 630: an
  exception leaves the frontier as it is.\<close>

definition enqueue_link ::
  "web \<Rightarrow> config \<Rightarrow> string \<Rightarrow> int \<Rightarrow> string list \<Rightarrow> (string \<times> int) list \<Rightarrow> string \<Rightarrow> (string \<times> int) list" where
  "enqueue_link W cfg clean_url depth vis tv new_raw =
     (if new_raw \<noteq> '''' \<and> \<not> (startswith new_raw ''mailto:'' \<or> startswith new_raw ''javascript:''
           \<or> startswith new_raw ''#'')
      then (case link_target W clean_url new_raw of
              Inl e \<Rightarrow> tv
            | Inr new_clean \<Rightarrow>
                (case link_in_scope W cfg vis new_clean of
                   Inl e \<Rightarrow> tv
                 | Inr ok \<Rightarrow>
                     if ok \<and> (new_clean, depth + 1) \<notin> set tv
                     then tv @ [(new_clean, depth + 1)] else tv))
      else tv)"

text \<open>The \<open>try\<close> block of lines 602 to 631 for the page \<open>clean_url\<close>: the text added to
  the page element, and the frontier afterwards.\<close>

definition fetch_page ::
  "web \<Rightarrow> config \<Rightarrow> string \<Rightarrow> int \<Rightarrow> string list \<Rightarrow> (string \<times> int) list \<Rightarrow> string \<times> (string \<times> int) list" where
  "fetch_page W cfg clean_url depth vis tv =
     (if endswith (py_lower clean_url) ''.pdf''
      then (if include_pdfs cfg
            then let pdf_text_or_error = process_web_pdf W clean_url;
                     content_to_add =
                       (if pdf_text_or_error \<noteq> '''' \<and> startswith (py_strip pdf_text_or_error) ''<e>''
                        then pdf_text_or_error else escape_xml pdf_text_or_error)
                 in (''\<newline>'' @ content_to_add @ ''\<newline>'', tv)
            else (''\<newline><skipped>PDF ignored by config</skipped>\<newline>'', tv))
      else (case http_get W clean_url of
              Inl e \<Rightarrow> (''\<newline><error>Failed to process page: '' @ escape_xml (exn_str e) @ ''</error>\<newline>'', tv)
            | Inr response \<Rightarrow>
                if \<not> py_in ''text/html'' (py_lower (header_or (content_type response) ''''))
                then (''\<newline><skipped>Non-HTML: '' @ escape_xml (header_or (content_type response) ''N/A'')
                        @ ''</skipped>\<newline>'', tv)
                else (''\<newline>'' @ escape_xml (page_text response) @ ''\<newline>'',
                      if depth < max_depth cfg
                      then foldl (enqueue_link W cfg clean_url depth vis) tv (hrefs response)
                      else tv)))"

text \<open>One pass of the \<open>while to_visit\<close> body, lines 595 to 632. The calls of line 596
  and 598 are outside every \<open>try\<close>, so their exceptions leave the crawl.\<close>

definition crawl_step :: "web \<Rightarrow> config \<Rightarrow> crawl_state \<Rightarrow> exn + crawl_state" where
  "crawl_step W cfg st =
     (case to_visit st of
        [] \<Rightarrow> Inr st
      | (curr_url, depth) # rest \<Rightarrow>
          (case normalize_url (check_bracketed_host W) curr_url of
             Inl e \<Rightarrow> Inl e
           | Inr clean_url \<Rightarrow>
               if clean_url \<in> set (visited st) then Inr (st\<lparr>to_visit := rest\<rparr>)
               else (case is_same_domain (check_bracketed_host W) (base_url cfg) clean_url of
                       Inl e \<Rightarrow> Inl e
                     | Inr same \<Rightarrow>
                         if \<not> same then Inr (st\<lparr>to_visit := rest\<rparr>)
                         else (case is_within_depth (check_bracketed_host W) (base_url cfg) clean_url (max_depth cfg) of
                                 Inl e \<Rightarrow> Inl e
                               | Inr within \<Rightarrow>
                                   if \<not> within then Inr (st\<lparr>to_visit := rest\<rparr>)
                                   else if ignore_epubs cfg \<and> endswith (py_lower clean_url) ''.epub''
                                   then Inr (st\<lparr>to_visit := rest, visited := visited st @ [clean_url]\<rparr>)
                                   else let vis = visited st @ [clean_url];
                                            fetched = fetch_page W cfg clean_url depth vis rest;
                                            r = \<lparr>page_url = clean_url, page_depth = depth, page_body = fst fetched\<rparr>
                                        in Inr \<lparr>visited = vis, to_visit = snd fetched, page_records = page_records st @ [r],
                                                processed_content =
                                                  dict_set clean_url (page_xml r) (processed_content st)\<rparr>))))"

text \<open>What one frontier entry weighs in the termination argument: the levels left
  below it.\<close>

definition levels_left :: "config \<Rightarrow> string \<times> int \<Rightarrow> nat" where
  "levels_left cfg e = nat (max_depth cfg - snd e)"

text \<open>The \<open>while to_visit\<close> loop. It stops for every web: an entry is replaced by
  finitely many entries one level deeper, and no entry is deeper than \<open>max_depth\<close>.\<close>

function crawl_loop :: "web \<Rightarrow> config \<Rightarrow> crawl_state \<Rightarrow> exn + crawl_state" where
  "crawl_loop W cfg st =
     (if to_visit st = [] then Inr st
      else (case crawl_step W cfg st of
              Inl e \<Rightarrow> Inl e
            | Inr st' \<Rightarrow> crawl_loop W cfg st'))"
  by pat_completeness auto
termination
proof (relation "inv_image (mult1 {(a, b). a < b})
    (\<lambda>(W, cfg, st). mset (map (levels_left cfg) (to_visit st)))")
  show "wf (inv_image (mult1 {(a::nat, b). a < b})
    (\<lambda>(W, cfg, st). mset (map (levels_left cfg) (to_visit st))))"
    by (intro wf_inv_image wf_mult1) (rule wf_less)
next
  fix W :: web and cfg :: config and st st' :: crawl_state
  assume nonempty: "to_visit st \<noteq> []" and step: "crawl_step W cfg st = Inr st'"
  obtain curr_url depth rest where tv: "to_visit st = (curr_url, depth) # rest"
    using nonempty by (cases "to_visit st") auto
  have link: "\<exists>new. enqueue_link W cfg c depth vis q h = q @ new \<and> (\<forall>e \<in> set new. snd e = depth + 1)"
    for c vis q h
    by (auto simp: enqueue_link_def split: sum.splits)
  have links: "\<exists>new. foldl (enqueue_link W cfg c depth vis) q hs = q @ new \<and> (\<forall>e \<in> set new. snd e = depth + 1)"
    for c vis q hs
  proof (induction hs arbitrary: q)
    case Nil
    show ?case by simp
  next
    case (Cons h hs)
    obtain n1 where n1: "enqueue_link W cfg c depth vis q h = q @ n1" "\<forall>e \<in> set n1. snd e = depth + 1"
      using link by blast
    obtain n2 where n2: "foldl (enqueue_link W cfg c depth vis) (q @ n1) hs = (q @ n1) @ n2"
      "\<forall>e \<in> set n2. snd e = depth + 1"
      using Cons.IH by blast
    show ?case
      by (rule exI [of _ "n1 @ n2"]) (use n1 n2 in auto)
  qed
  have page: "\<exists>new. snd (fetch_page W cfg c depth vis rest) = rest @ new \<and>
      (\<forall>e \<in> set new. snd e = depth + 1 \<and> depth < max_depth cfg)" for c vis
  proof (cases "snd (fetch_page W cfg c depth vis rest) = rest")
    case True
    then show ?thesis by (intro exI [of _ "[]"]) simp
  next
    case False
    then have "\<exists>hs. snd (fetch_page W cfg c depth vis rest) = foldl (enqueue_link W cfg c depth vis) rest hs
        \<and> depth < max_depth cfg"
      by (auto simp: fetch_page_def Let_def split: if_splits sum.splits)
    then obtain hs where
      "snd (fetch_page W cfg c depth vis rest) = foldl (enqueue_link W cfg c depth vis) rest hs"
      and "depth < max_depth cfg"
      by blast
    then show ?thesis using links [of c vis rest hs] by auto
  qed
  have "\<exists>new. to_visit st' = rest @ new \<and> (\<forall>e \<in> set new. snd e = depth + 1 \<and> depth < max_depth cfg)"
  proof (cases "to_visit st' = rest")
    case True
    then show ?thesis by (intro exI [of _ "[]"]) simp
  next
    case False
    then have "\<exists>c vis. to_visit st' = snd (fetch_page W cfg c depth vis rest)"
      using step tv
      by (fastforce simp: crawl_step_def Let_def split: sum.splits if_splits)
    then obtain c vis where "to_visit st' = snd (fetch_page W cfg c depth vis rest)"
      by blast
    then show ?thesis using page [of c vis] by simp
  qed
  then obtain new where new: "to_visit st' = rest @ new"
    "\<forall>e \<in> set new. snd e = depth + 1 \<and> depth < max_depth cfg"
    by blast
  have "(mset (map (levels_left cfg) rest) + mset (map (levels_left cfg) new),
         add_mset (levels_left cfg (curr_url, depth)) (mset (map (levels_left cfg) rest)))
        \<in> mult1 {(a, b). a < b}"
  proof (rule mult1I [OF refl refl])
    fix b
    assume "b \<in># mset (map (levels_left cfg) new)"
    then obtain e where "e \<in> set new" "b = levels_left cfg e" by auto
    with new(2) show "(b, levels_left cfg (curr_url, depth)) \<in> {(a, b). a < b}"
      by (auto simp: levels_left_def)
  qed
  then show "((W, cfg, st'), (W, cfg, st)) \<in> inv_image (mult1 {(a, b). a < b})
      (\<lambda>(W, cfg, st). mset (map (levels_left cfg) (to_visit st)))"
    by (simp add: tv new(1))
qed

declare crawl_loop.simps [simp del]

text \<open>\<open>crawl_and_extract_text\<close>: the \<open>content\<close> and the \<open>processed_urls\<close> of the
  returned dict, or the exception that leaves the function.\<close>

definition crawl_header :: "string \<Rightarrow> string" where
  "crawl_header base = ''<source type='' @ dq @ ''web_crawl'' @ dq @ '' base_url='' @ dq @ escape_xml base @ dq @ ''>''"

definition crawl_config :: "string \<Rightarrow> int \<Rightarrow> bool \<Rightarrow> bool \<Rightarrow> config" where
  "crawl_config base md inc_pdfs ign_epubs =
     \<lparr>base_url = base, max_depth = md, include_pdfs = inc_pdfs, ignore_epubs = ign_epubs\<rparr>"

definition crawl_and_extract_text ::
  "web \<Rightarrow> string \<Rightarrow> int \<Rightarrow> bool \<Rightarrow> bool \<Rightarrow> exn + (string \<times> string list)" where
  "crawl_and_extract_text W base md inc_pdfs ign_epubs =
     (case crawl_loop W (crawl_config base md inc_pdfs ign_epubs) (initial_state base) of
        Inl e \<Rightarrow> Inl e
      | Inr st \<Rightarrow>
          Inr (py_join ''\<newline>'' ([crawl_header base] @ map page_xml (page_records st) @ [''\<newline></source>'']),
               map fst (processed_content st)))"

text \<open>The states the loop passes through: the state before the first pass, and the state
  after each pass of the body that does not raise.\<close>

inductive crawl_reachable :: "web \<Rightarrow> config \<Rightarrow> crawl_state \<Rightarrow> bool" for W cfg where
  start: "crawl_reachable W cfg (initial_state (base_url cfg))"
| step: "crawl_reachable W cfg st \<Longrightarrow> to_visit st \<noteq> [] \<Longrightarrow> crawl_step W cfg st = Inr st' \<Longrightarrow>
         crawl_reachable W cfg st'"

text \<open>The scope predicate in the words of the specification: the candidate path, without
  trailing slashes, begins with the base path as a string, and the difference of the
  \<open>'/'\<close>-split segment counts is at most \<open>max_depth\<close>.\<close>

definition path_segment_delta :: "string \<Rightarrow> string \<Rightarrow> int" where
  "path_segment_delta base_path candidate_path =
     segment_count (rstrip_char CHR ''/'' candidate_path) - segment_count (rstrip_char CHR ''/'' base_path)"

definition raw_prefix_scope :: "string \<Rightarrow> string \<Rightarrow> int \<Rightarrow> bool" where
  "raw_prefix_scope base_path candidate_path md \<longleftrightarrow>
     prefix (rstrip_char CHR ''/'' base_path) (rstrip_char CHR ''/'' candidate_path)
     \<and> path_segment_delta base_path candidate_path \<le> md"

section \<open>A small web\<close>

text \<open>
  A site with a cycle (\<open>/docs/a\<close> links back to \<open>/docs\<close>), a page reached by two
  routes (\<open>/docs/b\<close>), a link to another host, a sibling of the base path
  (\<open>/docs-other\<close>, served as plain text) and a PDF whose download fails. Every link is an
  absolute URL, which \<open>urljoin\<close> returns as it is.
\<close>

definition demo_http_get :: "string \<Rightarrow> exn + http_response" where
  "demo_http_get u =
     (if u = ''http://example.com/docs''
      then Inr \<lparr>content_type = Some ''text/html; charset=utf-8'', page_text = ''Docs & more'',
                hrefs = [''http://example.com/docs/a'', ''http://example.com/docs/b#top'',
                         ''http://other.org/docs/x'', ''http://example.com/docs-other'',
                         ''http://example.com/docs/paper.pdf'', ''mailto:me@example.com'']\<rparr>
      else if u = ''http://example.com/docs/a''
      then Inr \<lparr>content_type = Some ''text/html'', page_text = ''Page A'',
                hrefs = [''http://example.com/docs/b'', ''http://example.com/docs'']\<rparr>
      else if u = ''http://example.com/docs/b''
      then Inr \<lparr>content_type = Some ''text/html'', page_text = ''Page B'', hrefs = []\<rparr>
      else if u = ''http://example.com/docs-other''
      then Inr \<lparr>content_type = Some ''text/plain'', page_text = '''', hrefs = []\<rparr>
      else Inl (RequestException ''404 Client Error: Not Found''))"

definition demo_web :: web where
  "demo_web = \<lparr>check_bracketed_host = (\<lambda>h. None), urljoin = (\<lambda>b u. Inr u),
               http_get = demo_http_get,
               pdf_get = (\<lambda>u. Inl (RequestException ''404 Client Error: Not Found''))\<rparr>"

definition demo_config :: config where
  "demo_config = crawl_config ''http://example.com/docs'' 2 True True"

definition demo_page :: "string \<Rightarrow> int \<Rightarrow> string \<Rightarrow> page_record" where
  "demo_page u d b = \<lparr>page_url = u, page_depth = d, page_body = b\<rparr>"

definition demo_pages :: "page_record list" where
  "demo_pages =
     [demo_page ''http://example.com/docs'' 0 ''\<newline>Docs &amp; more\<newline>'',
      demo_page ''http://example.com/docs/a'' 1 ''\<newline>Page A\<newline>'',
      demo_page ''http://example.com/docs/b'' 1 ''\<newline>Page B\<newline>'',
      demo_page ''http://example.com/docs-other'' 1 ''\<newline><skipped>Non-HTML: text/plain</skipped>\<newline>'',
      demo_page ''http://example.com/docs/paper.pdf'' 1
        ''\<newline>&lt;error&gt;Failed to download PDF: 404 Client Error: Not Found&lt;/error&gt;\<newline>'']"

text \<open>The states of the crawl of this web after one and after two passes, and at the
  end.\<close>

definition demo_state1 :: crawl_state where
  "demo_state1 =
     \<lparr>visited = [''http://example.com/docs''],
      to_visit = [(''http://example.com/docs/a'', 1), (''http://example.com/docs/b'', 1),
                  (''http://example.com/docs-other'', 1), (''http://example.com/docs/paper.pdf'', 1)],
      page_records = take 1 demo_pages,
      processed_content = map (\<lambda>r. (page_url r, page_xml r)) (take 1 demo_pages)\<rparr>"

definition demo_state2 :: crawl_state where
  "demo_state2 =
     \<lparr>visited = [''http://example.com/docs'', ''http://example.com/docs/a''],
      to_visit = [(''http://example.com/docs/b'', 1), (''http://example.com/docs-other'', 1),
                  (''http://example.com/docs/paper.pdf'', 1), (''http://example.com/docs/b'', 2)],
      page_records = take 2 demo_pages,
      processed_content = map (\<lambda>r. (page_url r, page_xml r)) (take 2 demo_pages)\<rparr>"

definition demo_final :: crawl_state where
  "demo_final =
     \<lparr>visited = map page_url demo_pages, to_visit = [],
      page_records = demo_pages,
      processed_content = map (\<lambda>r. (page_url r, page_xml r)) demo_pages\<rparr>"

text \<open>What a run of the link loop adds to the frontier.\<close>

definition fresh_entries :: "int \<Rightarrow> string list \<Rightarrow> (string \<times> int) list \<Rightarrow> (string \<times> int) list \<Rightarrow> bool" where
  "fresh_entries depth vis tv new \<longleftrightarrow>
     distinct new \<and> (\<forall>x \<in> set new. snd x = depth + 1 \<and> fst x \<notin> set vis \<and> x \<notin> set tv)"

section \<open>The source dispatcher: \<open>dispatch_processing\<close> and \<open>process_input\<close>\<close>

text \<open>
  The handlers the dispatcher routes to, the file system and the missing helper
  \<open>is_allowed_filetype\<close> are parameters: each handler returns a string or raises, as a
  function of the input alone, and nothing is assumed of what it returns.
  \<^item> \<open>github_pull_request\<close>, \<open>github_issue\<close>, \<open>github_repo\<close>, \<open>youtube_transcript\<close>,
    \<open>arxiv_pdf\<close>, \<open>doi_or_pmid\<close>, \<open>local_folder\<close>: the functions
    \<open>process_github_pull_request\<close>, \<open>process_github_issue\<close>, \<open>process_github_repo\<close>,
    \<open>fetch_youtube_transcript\<close>, \<open>process_arxiv_pdf\<close>, \<open>process_doi_or_pmid\<close> and
    \<open>process_local_folder\<close>.
  \<^item> \<open>excel_from_url\<close>, \<open>excel_local\<close>: \<open>excel_to_markdown_from_url\<close> and
    \<open>excel_to_markdown\<close>, the items of the returned dict in order.
  \<^item> \<open>http_file\<close>: the download and decoding in \<open>_download_and_read_file\<close>.
  \<^item> \<open>pdf_from_path\<close>: opening a local PDF with \<open>PdfReader\<close>.
  \<^item> \<open>safe_file_read\<close>, \<open>isdir\<close>, \<open>isfile\<close>: as in the source and in \<open>os.path\<close>.
  \<^item> \<open>write_file name text\<close>: writing the list of crawled URLs; \<open>Some e\<close> when it raises.
\<close>

record handlers =
  github_pull_request :: "string \<Rightarrow> exn + string"
  github_issue :: "string \<Rightarrow> exn + string"
  github_repo :: "string \<Rightarrow> exn + string"
  youtube_transcript :: "string \<Rightarrow> exn + string"
  arxiv_pdf :: "string \<Rightarrow> exn + string"
  doi_or_pmid :: "string \<Rightarrow> exn + string"
  local_folder :: "string \<Rightarrow> exn + string"
  excel_from_url :: "string \<Rightarrow> exn + (string \<times> string) list"
  excel_local :: "string \<Rightarrow> exn + (string \<times> string) list"
  http_file :: "string \<Rightarrow> exn + string"
  pdf_from_path :: "string \<Rightarrow> exn + pdf_page list"
  safe_file_read :: "string \<Rightarrow> exn + string"
  is_allowed_filetype :: "string \<Rightarrow> exn + bool"
  isdir :: "string \<Rightarrow> bool"
  isfile :: "string \<Rightarrow> bool"
  write_file :: "string \<Rightarrow> string \<Rightarrow> exn option"

text \<open>
  What the program does at the terminal and with the user's files is a second set of
  parameters. Each of them returns or raises; nothing is assumed of any of them.
  \<^item> \<open>console_print\<close>: \<open>Console.print\<close> of \<open>rich\<close>, which renders its argument as
    markup; \<open>Some e\<close> when it raises. \<open>print_exception\<close>: \<open>Console.print_exception\<close>.
  \<^item> \<open>stdin_isatty\<close>, \<open>prompt_ask\<close>: \<open>sys.stdin.isatty()\<close> and \<open>Prompt.ask\<close>.
  \<^item> \<open>read_from_stdin\<close>, \<open>read_from_clipboard\<close>, \<open>load_alias\<close>, \<open>handle_add_alias\<close>,
    \<open>handle_alias_from_clipboard\<close>, \<open>process_text_stream\<close>: the functions of these names,
    which read the standard input, the clipboard and the alias files.
  \<^item> \<open>progress_add_task\<close>, \<open>progress_update\<close>: the methods \<open>add_task\<close> and \<open>update\<close> of
    the progress bar; \<open>update\<close> is given the task and the new description, or \<open>None\<close>
    for \<open>advance=1\<close>.
  \<^item> \<open>combine_xml_outputs\<close>: called by \<open>main\<close>; \<open>onefilellm.py\<close> neither defines nor
    imports the name.
  \<^item> \<open>emit_output\<close>: the statements of the last \<open>try\<close> block of \<open>main\<close>, which write
    \<open>output.xml\<close>, count tokens and copy the document to the clipboard.
\<close>

record environment =
  console_print :: "string \<Rightarrow> exn option"
  print_exception :: "exn option"
  stdin_isatty :: bool
  prompt_ask :: "string \<Rightarrow> exn + string"
  read_from_stdin :: "exn + string option"
  read_from_clipboard :: "exn + string option"
  load_alias :: "string \<Rightarrow> exn + string list option"
  handle_add_alias :: "string list \<Rightarrow> exn option"
  handle_alias_from_clipboard :: "string list \<Rightarrow> exn option"
  process_text_stream :: "string \<Rightarrow> (string \<times> string) list \<Rightarrow> string option \<Rightarrow> exn + string option"
  progress_add_task :: "nat \<Rightarrow> exn + nat"
  progress_update :: "nat \<Rightarrow> string option \<Rightarrow> exn option"
  combine_xml_outputs :: "string list \<Rightarrow> exn + string"
  emit_output :: "string \<Rightarrow> exn option"

text \<open>A statement that returns nothing, followed by the rest of the block: when the
  statement raises, the rest does not run.\<close>

definition and_then :: "exn option \<Rightarrow> exn + 'a \<Rightarrow> exn + 'a" where
  "and_then effect rest = (case effect of Some e \<Rightarrow> Inl e | None \<Rightarrow> rest)"

text \<open>\<open>os.path.basename\<close> and the first component of \<open>os.path.splitext\<close> (POSIX).\<close>

definition basename :: "string \<Rightarrow> string" where
  "basename p = (case py_rfind CHR ''/'' p of None \<Rightarrow> p | Some i \<Rightarrow> drop (i + 1) p)"

definition splitext_root :: "string \<Rightarrow> string" where
  "splitext_root p =
     (case py_rfind CHR ''.'' p of
        None \<Rightarrow> p
      | Some dotIndex \<Rightarrow>
          let filenameIndex = (case py_rfind CHR ''/'' p of None \<Rightarrow> 0 | Some sepIndex \<Rightarrow> sepIndex + 1)
          in if filenameIndex \<le> dotIndex
                \<and> (\<exists>c \<in> set (take (dotIndex - filenameIndex) (drop filenameIndex p)). c \<noteq> CHR ''.'')
             then take dotIndex p else p)"

text \<open>\<open>str.isdigit\<close>.\<close>

definition py_isdigit :: "string \<Rightarrow> bool" where
  "py_isdigit s \<longleftrightarrow> s \<noteq> [] \<and> (\<forall>c \<in> set s. c \<in> set (''0123456789'' @ [CHR 0xB2, CHR 0xB3, CHR 0xB9]))"

definition process_pdf_content_from_path :: "handlers \<Rightarrow> string \<Rightarrow> string" where
  "process_pdf_content_from_path C file_path =
     (case pdf_from_path C file_path of
        Inr pages \<Rightarrow> extract_text_from_pdf_object pages
      | Inl (FileNotFoundError m) \<Rightarrow> ''<e>PDF file not found: '' @ escape_xml file_path @ ''</e>''
      | Inl e \<Rightarrow> ''<e>Failed to read or process PDF file: '' @ escape_xml (exn_str e) @ ''</e>'')"

definition download_and_read_file :: "handlers \<Rightarrow> string \<Rightarrow> string" where
  "download_and_read_file C url =
     (case http_file C url of
        Inr text \<Rightarrow> text
      | Inl (RequestException m) \<Rightarrow> ''<e>Failed to download file: '' @ escape_xml m @ ''</e>''
      | Inl e \<Rightarrow> ''<e>Unexpected error: '' @ escape_xml (exn_str e) @ ''</e>'')"

text \<open>The values \<open>dispatch_processing\<close> reads from \<open>config\<close>.\<close>

record dispatch_config =
  cfg_max_depth :: int
  cfg_include_pdfs :: bool
  cfg_ignore_epubs :: bool
  cfg_urls_list_file :: string

definition text_extensions :: "string list" where
  "text_extensions = [''.txt'', ''.md'', ''.rst'', ''.tex'', ''.html'', ''.htm'', ''.css'', ''.js'',
     ''.ts'', ''.py'', ''.java'', ''.c'', ''.cpp'', ''.h'', ''.hpp'', ''.cs'', ''.rb'', ''.php'',
     ''.swift'', ''.kt'', ''.scala'', ''.rs'', ''.lua'', ''.pl'', ''.sh'', ''.bash'', ''.zsh'',
     ''.ps1'', ''.sql'', ''.groovy'', ''.dart'', ''.json'', ''.yaml'', ''.yml'', ''.xml'', ''.toml'',
     ''.ini'', ''.cfg'', ''.conf'', ''.properties'', ''.csv'', ''.tsv'', ''.proto'', ''.graphql'',
     ''.tf'', ''.tfvars'', ''.hcl'']"

text \<open>A list comprehension with a condition that may raise.\<close>

fun filter_exn :: "('a \<Rightarrow> exn + bool) \<Rightarrow> 'a list \<Rightarrow> exn + 'a list" where
  "filter_exn f [] = Inr []"
| "filter_exn f (x # xs) =
     (case f x of
        Inl e \<Rightarrow> Inl e
      | Inr keep \<Rightarrow>
          (case filter_exn f xs of
             Inl e \<Rightarrow> Inl e
           | Inr ys \<Rightarrow> Inr (if keep then x # ys else ys)))"

text \<open>The condition of line 809.\<close>

definition is_text_file_url :: "handlers \<Rightarrow> string \<Rightarrow> exn + bool" where
  "is_text_file_url C s =
     (case filter_exn (\<lambda>x. is_allowed_filetype C (''test'' @ x)) text_extensions of
        Inl e \<Rightarrow> Inl e
      | Inr exts \<Rightarrow> Inr (\<exists>ext \<in> set (filter (\<lambda>ext. ext \<noteq> ''.pdf'') exts). endswith (py_lower s) ext))"

definition raw_or_escaped :: "string \<Rightarrow> string" where
  "raw_or_escaped content =
     (if content \<noteq> [] \<and> startswith (py_strip content) ''<e>'' then content else escape_xml content)"

definition file_element :: "string \<Rightarrow> string \<Rightarrow> string" where
  "file_element file_path inner =
     ''<file path='' @ dq @ escape_xml file_path @ dq @ ''>\<newline>'' @ inner @ ''\<newline></file>''"

definition sheet_element :: "string \<Rightarrow> string \<times> string \<Rightarrow> string" where
  "sheet_element bname item =
     ''<file path='' @ dq @ escape_xml (bname @ ''_'' @ fst item @ ''.md'') @ dq @ ''>''
       @ escape_xml (snd item) @ ''</file>''"

definition source_open :: "string \<Rightarrow> string \<Rightarrow> string \<Rightarrow> string" where
  "source_open kind attr val =
     ''<source type='' @ dq @ kind @ dq @ '' '' @ attr @ ''='' @ dq @ escape_xml val @ dq @ ''>''"

text \<open>The spreadsheet branches: the sheets as file elements, or the failure marker.\<close>

definition excel_block :: "string \<Rightarrow> string \<Rightarrow> string \<Rightarrow> string \<Rightarrow> string \<Rightarrow> exn + (string \<times> string) list \<Rightarrow> string" where
  "excel_block kind attr val bname failure sheets =
     py_join ''\<newline>''
       ([source_open kind attr val]
        @ (case sheets of
             Inl e \<Rightarrow> [''<e>'' @ failure @ escape_xml (exn_str e) @ ''</e>'']
           | Inr items \<Rightarrow> map (sheet_element bname) items)
        @ [''</source>''])"

definition dispatch_processing ::
  "environment \<Rightarrow> web \<Rightarrow> handlers \<Rightarrow> dispatch_config \<Rightarrow> string \<Rightarrow> exn + string" where
  "dispatch_processing T W C config s =
     and_then (console_print T (''\<newline>[green]Dispatching for:[/] [yellow]'' @ s @ ''[/]''))
     (if py_in ''github.com'' s
      then (if py_in ''/pull/'' s then github_pull_request C s
            else if py_in ''/issues/'' s then github_issue C s
            else github_repo C s)
      else (case urlparse (check_bracketed_host W) s of
              Inl e \<Rightarrow> Inl e
            | Inr parsed \<Rightarrow>
                if scheme parsed \<in> set [''http'', ''https'']
                then (if py_in ''youtube.com'' s \<or> py_in ''youtu.be'' s then youtube_transcript C s
                      else if py_in ''arxiv.org/abs/'' s then arxiv_pdf C s
                      else if endswith (py_lower s) ''.pdf''
                      then and_then (console_print T ''[yellow]Direct PDF URL - single page crawl[/yellow]'')
                             (case crawl_and_extract_text W s 0 True (cfg_ignore_epubs config) of
                                Inl e \<Rightarrow> Inl e
                              | Inr crawl_res \<Rightarrow> Inr (fst crawl_res))
                      else if endswith (py_lower s) ''.xls'' \<or> endswith (py_lower s) ''.xlsx''
                      then and_then (console_print T (''Excel URL: '' @ s))
                             (Inr (excel_block ''web_excel'' ''url'' s (splitext_root (basename (path parsed)))
                                     ''Failed Excel URL: '' (excel_from_url C s)))
                      else (case is_text_file_url C s of
                              Inl e \<Rightarrow> Inl e
                            | Inr True \<Rightarrow>
                                and_then (console_print T (''Direct file URL: '' @ s))
                                  (Inr (source_open ''web_file'' ''url'' s @ ''\<newline>''
                                        @ file_element (basename (path parsed))
                                            (raw_or_escaped (download_and_read_file C s))
                                        @ ''\<newline></source>''))
                            | Inr False \<Rightarrow>
                                (case crawl_and_extract_text W s (cfg_max_depth config)
                                        (cfg_include_pdfs config) (cfg_ignore_epubs config) of
                                   Inl e \<Rightarrow> Inl e
                                 | Inr crawl_res \<Rightarrow>
                                     if snd crawl_res \<noteq> []
                                     then (case write_file C (cfg_urls_list_file config)
                                                  (py_join ''\<newline>'' (snd crawl_res)) of
                                             Some e \<Rightarrow> Inl e
                                           | None \<Rightarrow> Inr (fst crawl_res))
                                     else Inr (fst crawl_res))))
                else if (startswith s ''10.'' \<and> py_in ''/'' s) \<or> py_isdigit s then doi_or_pmid C s
                else if isdir C s then local_folder C s
                else if isfile C s
                then (if endswith (py_lower s) ''.pdf''
                      then (let pdf_text_raw = process_pdf_content_from_path C s;
                                content_to_insert =
                                  (if startswith (py_strip pdf_text_raw) ''<e>'' then pdf_text_raw
                                   else escape_xml pdf_text_raw)
                            in Inr (source_open ''local_file'' ''path'' s @ ''\<newline>''
                                    @ file_element (basename s) content_to_insert @ ''\<newline></source>''))
                      else if endswith (py_lower s) ''.xls'' \<or> endswith (py_lower s) ''.xlsx''
                      then Inr (excel_block ''local_file'' ''path'' s (splitext_root (basename s))
                                  ''Failed local Excel: '' (excel_local C s))
                      else (case safe_file_read C s of
                              Inl e \<Rightarrow> Inl e
                            | Inr fcontent_raw \<Rightarrow>
                                Inr (source_open ''local_file'' ''path'' s @ ''\<newline>''
                                     @ file_element (basename s) (escape_xml fcontent_raw)
                                     @ ''\<newline></source>'')))
                else Inl (ValueError (''Input type not recognized: '' @ s))))"

text \<open>The error block of \<open>process_input\<close>.\<close>

definition error_block :: "string \<Rightarrow> string \<Rightarrow> string" where
  "error_block input_path msg =
     source_open ''error'' ''path'' input_path @ ''<e>Failed: '' @ escape_xml msg @ ''</e></source>''"

definition process_config :: dispatch_config where
  "process_config = \<lparr>cfg_max_depth = 1, cfg_include_pdfs = True, cfg_ignore_epubs = True,
                      cfg_urls_list_file = ''processed_urls.txt''\<rparr>"

text \<open>
  \<open>process_input(input_path, progress, task)\<close>. The argument \<open>task\<close> of the model is
  \<open>None\<close> for the defaults \<open>progress=None, task=None\<close> and \<open>Some n\<close> for a progress bar
  with the task \<open>n\<close>; the test \<open>task and progress\<close> fails for the task \<open>0\<close>. An exception
  of the \<open>try\<close> block is caught; the handler prints before it returns the error block, and
  what its two print statements raise leaves \<open>process_input\<close>.
\<close>

definition process_input ::
  "environment \<Rightarrow> web \<Rightarrow> handlers \<Rightarrow> string \<Rightarrow> nat option \<Rightarrow> exn + string" where
  "process_input T W C input_path task =
     (case and_then (case task of
                       None \<Rightarrow> None
                     | Some n \<Rightarrow> if n \<noteq> 0
                                then progress_update T n (Some (''[blue]Processing '' @ input_path @ ''...''))
                                else None)
             (dispatch_processing T W C process_config input_path) of
        Inr result \<Rightarrow> Inr result
      | Inl e \<Rightarrow>
          and_then (console_print T (''\<newline>[red]Error processing '' @ [CHR 0x27] @ input_path
                                      @ [CHR 0x27] @ '': '' @ exn_str e @ ''[/red]''))
            (and_then (print_exception T) (Inr (error_block input_path (exn_str e)))))"

section \<open>The driver: \<open>main\<close>\<close>

text \<open>
  The local variables of \<open>main\<close> that live across its blocks. Line 860 assigns
  \<open>stream_input_mode\<close>, which nothing reads afterwards; \<open>is_stream_input_mode\<close> is
  assigned at lines 881 and 886 only, so it is a local variable of \<open>main\<close> that has no
  value until one of these lines has run: \<open>None\<close> here.
\<close>

record main_locals =
  raw_args :: "string list"
  stream_input_mode :: bool
  is_stream_input_mode :: "bool option"
  stream_source_dict :: "(string \<times> string) list"
  stream_content :: "string option"
  user_fmt_override :: "string option"
  input_paths :: "string list"

text \<open>How a run of \<open>main\<close> ends when no exception leaves it: it returned before a final
  document was built, or it built the document and the last \<open>try\<close> block wrote it out, or
  that block failed.\<close>

datatype outcome = Returned | Written string | Write_failed string

text \<open>The truth value of a \<open>str | None\<close>.\<close>

definition truthy :: "string option \<Rightarrow> bool" where
  "truthy v = (case v of None \<Rightarrow> False | Some text \<Rightarrow> text \<noteq> [])"

text \<open>A block of \<open>main\<close> gives the locals it leaves behind, or \<open>None\<close> when it executed
  \<open>return\<close>; the block after it runs on the locals.\<close>

definition unless_returned ::
  "exn + 'a option \<Rightarrow> ('a \<Rightarrow> exn + 'b option) \<Rightarrow> exn + 'b option" where
  "unless_returned block rest =
     (case block of Inl e \<Rightarrow> Inl e | Inr None \<Rightarrow> Inr None | Inr (Some l) \<Rightarrow> rest l)"

text \<open>\<open>xs.index(x)\<close> when \<open>x\<close> is in \<open>xs\<close>.\<close>

definition list_index :: "'a list \<Rightarrow> 'a \<Rightarrow> nat" where
  "list_index xs x = length (takeWhile (\<lambda>y. y \<noteq> x) xs)"

text \<open>Lines 864 to 874: the option \<open>--format TYPE\<close> or \<open>-f TYPE\<close> is taken out of the
  arguments. A \<open>ValueError\<close> raised inside the \<open>try\<close> block is caught.\<close>

definition format_option :: "environment \<Rightarrow> main_locals \<Rightarrow> exn + main_locals option" where
  "format_option T l =
     (let temp_raw_args = raw_args l;
          flag = (if ''--format'' \<in> set temp_raw_args then Some ''--format''
                  else if ''-f'' \<in> set temp_raw_args then Some ''-f'' else None)
      in case flag of
           None \<Rightarrow> Inr (Some l)
         | Some name \<Rightarrow>
             let idx = list_index temp_raw_args name
             in if idx + 1 < length temp_raw_args
                then Inr (Some (l\<lparr>user_fmt_override := Some (py_lower (temp_raw_args ! (idx + 1))),
                                  raw_args := take idx temp_raw_args @ drop (idx + 2) temp_raw_args\<rparr>))
                else (case console_print T (''[bold red]Error: '' @ name @ '' requires a TYPE.[/bold red]'') of
                        None \<Rightarrow> Inr None
                      | Some (ValueError m) \<Rightarrow>
                          and_then (console_print T ''[bold red]Error parsing --format/-f.[/bold red]'')
                            (Inr None)
                      | Some e \<Rightarrow> Inl e))"

text \<open>Lines 876 to 888: the standard input or the clipboard as the source. These are
  the two places that assign \<open>is_stream_input_mode\<close>.\<close>

definition stream_source :: "environment \<Rightarrow> main_locals \<Rightarrow> exn + main_locals option" where
  "stream_source T l =
     (if ''-'' \<in> set (raw_args l)
      then (if \<not> stdin_isatty T
            then and_then (console_print T ''[blue]Reading from stdin...[/blue]'')
                   (case read_from_stdin T of
                      Inl e \<Rightarrow> Inl e
                    | Inr content \<Rightarrow>
                        if \<not> truthy content
                        then and_then (console_print T ''[red]Error: No input from stdin.[/red]'') (Inr None)
                        else Inr (Some (l\<lparr>stream_content := content,
                                          is_stream_input_mode := Some True,
                                          stream_source_dict := [(''type'', ''stdin'')],
                                          raw_args := remove1 ''-'' (raw_args l)\<rparr>)))
            else Inr (Some l))
      else if ''--clipboard'' \<in> set (raw_args l) \<or> ''-c'' \<in> set (raw_args l)
      then and_then (console_print T ''[blue]Reading from clipboard...[/blue]'')
             (case read_from_clipboard T of
                Inl e \<Rightarrow> Inl e
              | Inr content \<Rightarrow>
                  if \<not> truthy content
                  then and_then (console_print T ''[red]Error: No input from clipboard.[/red]'') (Inr None)
                  else Inr (Some (l\<lparr>stream_content := content,
                                    is_stream_input_mode := Some True,
                                    stream_source_dict := [(''type'', ''clipboard'')],
                                    raw_args := remove1 ''-c'' (remove1 ''--clipboard'' (raw_args l))\<rparr>)))
      else Inr (Some l))"

text \<open>\<open>is_potential_alias\<close> and \<open>resolve_single_input_source\<close>.\<close>

definition is_potential_alias :: "string \<Rightarrow> bool" where
  "is_potential_alias arg_string \<longleftrightarrow>
     arg_string \<noteq> [] \<and> \<not> list_ex (\<lambda>c. c \<in> set arg_string) [CHR ''.'', CHR ''/'', CHR '':'', CHR 0x5C]"

definition resolve_single_input_source :: "environment \<Rightarrow> string \<Rightarrow> exn + string list" where
  "resolve_single_input_source T source_string =
     (if is_potential_alias source_string
      then and_then (console_print T (''[dim]Checking if '' @ [CHR 0x27] @ source_string @ [CHR 0x27]
                                      @ '' is an alias...[/dim]''))
             (case load_alias T source_string of
                Inl e \<Rightarrow> Inl e
              | Inr (Some resolved) \<Rightarrow>
                  and_then (console_print T
                              (if resolved \<noteq> []
                               then ''[cyan]Alias '' @ [CHR 0x27] @ source_string @ [CHR 0x27]
                                    @ '' expanded to: '' @ py_join '', '' resolved @ ''[/cyan]''
                               else ''[yellow]Alias '' @ [CHR 0x27] @ source_string @ [CHR 0x27]
                                    @ '' is empty. Skipping.[/yellow]''))
                    (Inr resolved)
              | Inr None \<Rightarrow>
                  and_then (console_print T (''[dim]'' @ [CHR 0x27] @ source_string @ [CHR 0x27]
                              @ '' not a known alias or error reading. Treating as direct input.[/dim]''))
                    (Inr [source_string]))
      else Inr [source_string])"

text \<open>The loop of line 895.\<close>

fun resolve_args :: "environment \<Rightarrow> string list \<Rightarrow> string list \<Rightarrow> exn + string list" where
  "resolve_args T [] paths = Inr paths"
| "resolve_args T (arg_str # rest) paths =
     (case resolve_single_input_source T arg_str of
        Inl e \<Rightarrow> Inl e
      | Inr resolved \<Rightarrow> resolve_args T rest (paths @ resolved))"

text \<open>Lines 890 to 895: alias management, or the arguments as inputs.\<close>

definition collect_inputs :: "environment \<Rightarrow> main_locals \<Rightarrow> exn + main_locals option" where
  "collect_inputs T l =
     (if raw_args l \<noteq> []
      then (if hd (raw_args l) = ''--add-alias''
            then and_then (handle_add_alias T (raw_args l)) (Inr None)
            else if hd (raw_args l) = ''--alias-from-clipboard''
            then and_then (handle_alias_from_clipboard T (raw_args l)) (Inr None)
            else (case resolve_args T (raw_args l) (input_paths l) of
                    Inl e \<Rightarrow> Inl e
                  | Inr paths \<Rightarrow> Inr (Some (l\<lparr>input_paths := paths\<rparr>))))
      else Inr (Some l))"

text \<open>Reading \<open>is_stream_input_mode\<close>, and the condition
  \<open>not input_paths and not is_stream_input_mode\<close> of lines 897 and 904: \<open>and\<close> reads its
  right operand only when the left one is true.\<close>

definition read_is_stream_input_mode :: "main_locals \<Rightarrow> exn + bool" where
  "read_is_stream_input_mode l =
     (case is_stream_input_mode l of
        None \<Rightarrow> Inl (UnboundLocalError ''is_stream_input_mode'')
      | Some b \<Rightarrow> Inr b)"

definition nothing_to_process :: "main_locals \<Rightarrow> exn + bool" where
  "nothing_to_process l =
     (if input_paths l \<noteq> [] then Inr False
      else (case read_is_stream_input_mode l of Inl e \<Rightarrow> Inl e | Inr b \<Rightarrow> Inr (\<not> b)))"

text \<open>Lines 897 to 902: with nothing to process, ask the user.\<close>

definition prompt_for_input ::
  "environment \<Rightarrow> string list \<Rightarrow> main_locals \<Rightarrow> exn + main_locals option" where
  "prompt_for_input T argv l =
     (case nothing_to_process l of
        Inl e \<Rightarrow> Inl e
      | Inr False \<Rightarrow> Inr (Some l)
      | Inr True \<Rightarrow>
          if stdin_isatty T \<and> ''-'' \<notin> set (tl argv)
          then (case prompt_ask T ''\<newline>Enter path, URL, or alias'' of
                  Inl e \<Rightarrow> Inl e
                | Inr answer \<Rightarrow>
                    let user_input = py_strip answer
                    in if user_input \<noteq> []
                       then (case resolve_single_input_source T user_input of
                               Inl e \<Rightarrow> Inl e
                             | Inr resolved \<Rightarrow> Inr (Some (l\<lparr>input_paths := input_paths l @ resolved\<rparr>)))
                       else Inr (Some l))
          else if ''-'' \<in> set (tl argv) \<and> stdin_isatty T
          then and_then (console_print T
                           (''[yellow]Warning: '' @ [CHR 0x27] @ ''-'' @ [CHR 0x27]
                            @ '' given but no data piped to stdin.[/yellow]''))
                 (Inr (Some l))
          else Inr (Some l))"

text \<open>Line 904.\<close>

definition exit_without_input :: "environment \<Rightarrow> main_locals \<Rightarrow> exn + main_locals option" where
  "exit_without_input T l =
     (case nothing_to_process l of
        Inl e \<Rightarrow> Inl e
      | Inr True \<Rightarrow> and_then (console_print T ''[yellow]No input. Exiting.[/yellow]'') (Inr None)
      | Inr False \<Rightarrow> Inr (Some l))"

text \<open>Lines 913 to 917: the loop over the inputs. A result is appended to \<open>outputs\<close>
  unless it is empty.\<close>

fun process_paths ::
  "environment \<Rightarrow> web \<Rightarrow> handlers \<Rightarrow> nat \<Rightarrow> string list \<Rightarrow> string list \<Rightarrow> exn + string list" where
  "process_paths T W C task [] outputs = Inr outputs"
| "process_paths T W C task (p # rest) outputs =
     (case process_input T W C p (Some task) of
        Inl e \<Rightarrow> Inl e
      | Inr res \<Rightarrow>
          and_then (console_print T (if res \<noteq> [] then ''[green]Processed: '' @ p @ ''[/green]''
                                     else ''[yellow]No output for: '' @ p @ ''[/yellow]''))
            (and_then (progress_update T task None)
               (process_paths T W C task rest (if res \<noteq> [] then outputs @ [res] else outputs))))"

text \<open>Lines 910 to 917: the branch \<open>elif input_paths\<close>.\<close>

definition inputs_branch ::
  "environment \<Rightarrow> web \<Rightarrow> handlers \<Rightarrow> main_locals \<Rightarrow> exn + string list" where
  "inputs_branch T W C l =
     (if input_paths l \<noteq> []
      then (case progress_add_task T (length (input_paths l)) of
              Inl e \<Rightarrow> Inl e
            | Inr task \<Rightarrow> process_paths T W C task (input_paths l) [])
      else Inr [])"

text \<open>Lines 906 to 917: the condition \<open>is_stream_input_mode and stream_content\<close> reads
  the local variable first; then the stream is processed, or the inputs are.\<close>

definition gather_outputs ::
  "environment \<Rightarrow> web \<Rightarrow> handlers \<Rightarrow> main_locals \<Rightarrow> exn + string list" where
  "gather_outputs T W C l =
     (case read_is_stream_input_mode l of
        Inl e \<Rightarrow> Inl e
      | Inr is_stream \<Rightarrow>
          (case stream_content l of
             None \<Rightarrow> inputs_branch T W C l
           | Some text \<Rightarrow>
               if is_stream \<and> text \<noteq> []
               then (case process_text_stream T text (stream_source_dict l) (user_fmt_override l) of
                       Inl e \<Rightarrow> Inl e
                     | Inr res \<Rightarrow> Inr (case res of None \<Rightarrow> [] | Some r \<Rightarrow> if r \<noteq> [] then [r] else []))
               else inputs_branch T W C l))"

text \<open>Lines 919 to 937: the final document. An exception of the last \<open>try\<close> block is
  caught and printed.\<close>

definition write_document :: "environment \<Rightarrow> string list \<Rightarrow> exn + outcome" where
  "write_document T outputs =
     (if outputs = []
      then and_then (console_print T ''[red]No output generated.[/red]'') (Inr Returned)
      else (case combine_xml_outputs T outputs of
              Inl e \<Rightarrow> Inl e
            | Inr final_xml \<Rightarrow>
                (case emit_output T final_xml of
                   None \<Rightarrow> Inr (Written final_xml)
                 | Some e \<Rightarrow>
                     and_then (console_print T (''[red]Error during final output/compression: ''
                                                 @ exn_str e @ ''[/red]''))
                       (Inr (Write_failed final_xml)))))"

text \<open>Lines 860 to 862: the locals at their first assignment.\<close>

definition initial_locals :: "string list \<Rightarrow> main_locals" where
  "initial_locals argv =
     \<lparr>raw_args = tl argv, stream_input_mode = False, is_stream_input_mode = None,
      stream_source_dict = [], stream_content = None, user_fmt_override = None,
      input_paths = []\<rparr>"

text \<open>Lines 860 to 904, up to the point where the inputs are known.\<close>

definition main_inputs :: "environment \<Rightarrow> string list \<Rightarrow> exn + main_locals option" where
  "main_inputs T argv =
     unless_returned (format_option T (initial_locals argv)) (\<lambda>l.
     unless_returned (stream_source T l) (\<lambda>l.
     unless_returned (collect_inputs T l) (\<lambda>l.
     unless_returned (prompt_for_input T argv l) (\<lambda>l.
     exit_without_input T l))))"

text \<open>\<open>main()\<close>, with \<open>sys.argv\<close> as its argument.\<close>

definition main :: "environment \<Rightarrow> web \<Rightarrow> handlers \<Rightarrow> string list \<Rightarrow> exn + outcome" where
  "main T W C argv =
     (if list_ex (\<lambda>arg. arg \<in> set argv) [''--help'', ''-h'']
      then and_then (console_print T ''onefilellm - Aggregate content into a single XML structure.'')
             (and_then (console_print T ''Usage: python onefilellm.py [options] [input_path|url|alias ...]'')
                (and_then (console_print T ''\<newline>Use --add-alias or --alias-from-clipboard for alias management.'')
                   (Inr Returned)))
      else (case main_inputs T argv of
              Inl e \<Rightarrow> Inl e
            | Inr None \<Rightarrow> Inr Returned
            | Inr (Some l) \<Rightarrow>
                (case gather_outputs T W C l of
                   Inl e \<Rightarrow> Inl e
                 | Inr outputs \<Rightarrow> write_document T outputs)))"

text \<open>Handlers and an environment for the examples: two local files, GitHub handlers
  that answer with a block, a console that prints everything, and the name
  \<open>combine_xml_outputs\<close> unbound, as \<open>onefilellm.py\<close> leaves it.\<close>

definition demo_handlers :: handlers where
  "demo_handlers =
     \<lparr>github_pull_request = (\<lambda>s. Inr (source_open ''github_pull_request'' ''url'' s @ ''</source>'')),
      github_issue = (\<lambda>s. Inr (source_open ''github_issue'' ''url'' s @ ''</source>'')),
      github_repo = (\<lambda>s. Inr (source_open ''github_repository'' ''url'' s @ ''</source>'')),
      youtube_transcript = (\<lambda>s. Inl (OtherException ''no transcript'')),
      arxiv_pdf = (\<lambda>s. Inl (RequestException ''503 Server Error'')),
      doi_or_pmid = (\<lambda>s. Inl (OtherException ''unavailable'')),
      local_folder = (\<lambda>s. Inl (OtherException ''unavailable'')),
      excel_from_url = (\<lambda>s. Inl (RequestException ''404 Client Error: Not Found'')),
      excel_local = (\<lambda>s. Inl (FileNotFoundError ''No such file'')),
      http_file = (\<lambda>s. Inl (RequestException ''404 Client Error: Not Found'')),
      pdf_from_path = (\<lambda>s. Inl (FileNotFoundError ''No such file'')),
      safe_file_read = (\<lambda>s. if s = ''/valid/local/file.txt'' then Inr ''a < b''
                              else Inl (FileNotFoundError ''No such file'')),
      is_allowed_filetype = (\<lambda>s. Inr True),
      isdir = (\<lambda>s. False),
      isfile = (\<lambda>s. s = ''/valid/local/file.txt''),
      write_file = (\<lambda>name text. None)\<rparr>"

definition demo_environment :: environment where
  "demo_environment =
     \<lparr>console_print = (\<lambda>text. None),
      print_exception = None,
      stdin_isatty = True,
      prompt_ask = (\<lambda>question. Inr ''''),
      read_from_stdin = Inr None,
      read_from_clipboard = Inr None,
      load_alias = (\<lambda>name. Inr None),
      handle_add_alias = (\<lambda>args. None),
      handle_alias_from_clipboard = (\<lambda>args. None),
      process_text_stream = (\<lambda>text source_info format_override. Inr None),
      progress_add_task = (\<lambda>total. Inr 0),
      progress_update = (\<lambda>task description. None),
      combine_xml_outputs =
        (\<lambda>outputs. Inl (OtherException (''name '' @ [CHR 0x27] @ ''combine_xml_outputs'' @ [CHR 0x27]
                                          @ '' is not defined''))),
      emit_output = (\<lambda>final_xml. None)\<rparr>"

text \<open>The two blocks that \<open>process_input\<close> gives for the inputs
  \<open>/valid/local/file.txt\<close> and \<open>not-a-real://input\<close>.\<close>

definition demo_blocks :: "string list" where
  "demo_blocks =
     [source_open ''local_file'' ''path'' ''/valid/local/file.txt'' @ ''\<newline>''
        @ file_element ''file.txt'' ''a &lt; b'' @ ''\<newline></source>'',
      error_block ''not-a-real://input'' ''Input type not recognized: not-a-real://input'']"

section \<open>Notions used to state and prove the properties of normalisation\<close>

text \<open>The part of a path after its last \<open>/\<close>; a string that the scheme test of
  \<open>urlsplit\<close> accepts and returns unchanged.\<close>

definition last_segment :: "string \<Rightarrow> string" where
  "last_segment x = rev (takeWhile (\<lambda>c. c \<noteq> CHR ''/'') (rev x))"

definition scheme_like :: "string \<Rightarrow> bool" where
  "scheme_like s \<longleftrightarrow> s \<noteq> [] \<and> hd s \<in> set ascii_letters \<and> set s \<subseteq> set scheme_chars \<and> py_lower s = s"

text \<open>What a successful parse with a scheme guarantees about its components.\<close>

definition composable :: "(string \<Rightarrow> string option) \<Rightarrow> parse_result \<Rightarrow> bool" where
  "composable cbh p \<longleftrightarrow>
     scheme_like (scheme p)
     \<and> (\<forall>c \<in> set (netloc p @ path p @ params p @ query p). c \<notin> set unsafe_url_bytes)
     \<and> (\<forall>c \<in> set (netloc p). \<not> netloc_delim c)
     \<and> check_netloc_brackets cbh (netloc p) = None
     \<and> CHR ''?'' \<notin> set (path p @ params p)
     \<and> CHR ''#'' \<notin> set (path p @ params p @ query p)
     \<and> (params p = [] \<or> scheme p \<in> set uses_params)
     \<and> (scheme p \<in> set uses_params \<longrightarrow>
           CHR '';'' \<notin> set (last_segment (path p)) \<and> CHR ''/'' \<notin> set (params p))"

text \<open>Normalisation is idempotent at \<open>u\<close>: where \<open>normalize(u)\<close> is defined, normalising
  it again returns it unchanged.\<close>

definition normalize_idempotent_at :: "(string \<Rightarrow> string option) \<Rightarrow> string \<Rightarrow> bool" where
  "normalize_idempotent_at cbh u \<longleftrightarrow>
     (case normalize_url cbh u of Inl e \<Rightarrow> True | Inr v \<Rightarrow> normalize_url cbh v = Inr v)"

definition no_host_check :: "string \<Rightarrow> string option" where
  "no_host_check h = None"

section \<open>PDF extraction: results\<close>

lemma pdf_pages_loop_entries:
  "pdf_pages_loop i ps acc = acc @ List.map_filter page_entry (enumerate i ps)"
proof (induction i ps acc rule: pdf_pages_loop.induct)
  case (1 i text_list)
  show ?case by simp
next
  case (2 i page_text ps text_list)
  then show ?case by simp
next
  case (3 i page_e ps text_list)
  then show ?case by simp
qed

lemma map_filter_page_entry_empty:
  "List.map_filter page_entry (enumerate i ps) = [] \<longleftrightarrow>
     \<not> list_ex (\<lambda>p. yields_text p \<or> fails_extraction p) ps"
proof (induction ps arbitrary: i)
  case Nil
  show ?case by simp
next
  case (Cons p ps)
  show ?case
  proof (cases p)
    case (PageText t)
    with Cons show ?thesis by simp
  next
    case (PageRaises e)
    then show ?thesis by simp
  qed
qed

text \<open>
  C8, as the code has it. The result is the \<open>' '\<close>-joined list of the pages' entries
  (text of the pages that yield text, and an inline marker for each page whose extraction
  raises, in page order) exactly when some page yields text or raises; otherwise it is
  one of the two whole-document markers. A page that raises counts: a document all of
  whose pages raise returns the joined per-page markers, not a whole-document marker.
\<close>

theorem pdf_extraction_outcome:
  "extract_text_from_pdf_object pages =
     (if list_ex (\<lambda>p. yields_text p \<or> fails_extraction p) pages
      then py_join '' '' (page_entries pages)
      else if pages = [] then no_pages_marker else no_text_marker)"
  using map_filter_page_entry_empty [of 0 pages]
  by (auto simp: extract_text_from_pdf_object_def pdf_pages_loop_entries page_entries_def Let_def)

theorem pdf_extraction_outcome_witness:
  "extract_text_from_pdf_object [PageText ''ab'', PageRaises ''x<y'', PageText [], PageText ''cd'']
     = ''ab \<newline><e>Error extracting text from page 2: x&lt;y</e>\<newline> cd''
   \<and> extract_text_from_pdf_object [PageText [], PageText []] = no_text_marker"
  using pdf_extraction_outcome [of "[PageText ''ab'', PageRaises ''x<y'', PageText [], PageText ''cd'']"]
    pdf_extraction_outcome [of "[PageText [], PageText []]"]
  by (simp add: page_entries_def enumerate_eq_zip page_error_marker_def
      escape_xml_def escape_char_def str_nat.simps)

text \<open>
  C8 as stated fails: a single page whose extraction raises gives a result that is not a
  whole-document marker, although no page yields text.
\<close>

theorem pdf_success_iff_text_counterexample:
  "\<not> (pdf_overall_success [PageRaises ''boom''] \<longleftrightarrow> list_ex yields_text [PageRaises ''boom''])"
  by (simp add: pdf_overall_success_def whole_document_error_def extract_text_from_pdf_object_def
      page_error_marker_def no_pages_marker_def no_text_marker_def)

section \<open>The crawl loop: one pass\<close>

lemma enqueue_link_cases:
  "enqueue_link W cfg c depth vis tv h = tv \<or>
   (\<exists>u. enqueue_link W cfg c depth vis tv h = tv @ [(u, depth + 1)]
        \<and> u \<notin> set vis \<and> (u, depth + 1) \<notin> set tv)"
  by (auto simp: enqueue_link_def link_in_scope_def split: sum.splits if_splits)

lemma fresh_entries_Nil: "fresh_entries depth vis tv []"
  by (simp add: fresh_entries_def)

lemma foldl_enqueue_link:
  "\<exists>new. foldl (enqueue_link W cfg c depth vis) tv hs = tv @ new \<and> fresh_entries depth vis tv new"
proof (induction hs arbitrary: tv)
  case Nil
  show ?case by (simp add: fresh_entries_Nil)
next
  case (Cons h hs)
  from enqueue_link_cases [of W cfg c depth vis tv h]
  obtain n1 where n1: "enqueue_link W cfg c depth vis tv h = tv @ n1" "fresh_entries depth vis tv n1"
    by (auto simp: fresh_entries_def)
  from Cons.IH [of "tv @ n1"]
  obtain n2 where n2: "foldl (enqueue_link W cfg c depth vis) (tv @ n1) hs = (tv @ n1) @ n2"
    "fresh_entries depth vis (tv @ n1) n2"
    by blast
  have "fresh_entries depth vis tv (n1 @ n2)"
    using n1(2) n2(2) by (auto simp: fresh_entries_def)
  with n1(1) n2(1) show ?case by auto
qed

lemma fetch_page_frontier:
  "\<exists>new. snd (fetch_page W cfg c depth vis tv) = tv @ new \<and> fresh_entries depth vis tv new
      \<and> (new \<noteq> [] \<longrightarrow> depth < max_depth cfg)"
proof (cases "snd (fetch_page W cfg c depth vis tv) = tv")
  case True
  then show ?thesis by (intro exI [of _ "[]"]) (simp add: fresh_entries_Nil)
next
  case False
  then have "\<exists>hs. snd (fetch_page W cfg c depth vis tv) = foldl (enqueue_link W cfg c depth vis) tv hs
      \<and> depth < max_depth cfg"
    by (auto simp: fetch_page_def Let_def split: if_splits sum.splits)
  then show ?thesis using foldl_enqueue_link by metis
qed

text \<open>The three ways a pass of the loop body ends without raising: the entry is
  dropped, an EPUB is marked visited, or a page is processed.\<close>

lemma crawl_step_cases:
  assumes "to_visit st = (curr_url, depth) # rest" and "crawl_step W cfg st = Inr st'"
  obtains
    (dropped) "st' = st\<lparr>to_visit := rest\<rparr>"
  | (epub) clean_url where
      "clean_url \<notin> set (visited st)"
      "is_same_domain (check_bracketed_host W) (base_url cfg) clean_url = Inr True"
      "is_within_depth (check_bracketed_host W) (base_url cfg) clean_url (max_depth cfg) = Inr True"
      "st' = st\<lparr>to_visit := rest, visited := visited st @ [clean_url]\<rparr>"
  | (page) clean_url body new where
      "clean_url \<notin> set (visited st)"
      "is_same_domain (check_bracketed_host W) (base_url cfg) clean_url = Inr True"
      "is_within_depth (check_bracketed_host W) (base_url cfg) clean_url (max_depth cfg) = Inr True"
      "fresh_entries depth (visited st @ [clean_url]) rest new"
      "new \<noteq> [] \<longrightarrow> depth < max_depth cfg"
      "st' = \<lparr>visited = visited st @ [clean_url], to_visit = rest @ new,
              page_records = page_records st @ [\<lparr>page_url = clean_url, page_depth = depth, page_body = body\<rparr>],
              processed_content = dict_set clean_url
                (page_xml \<lparr>page_url = clean_url, page_depth = depth, page_body = body\<rparr>) (processed_content st)\<rparr>"
proof -
  from assms obtain clean_url where cu: "normalize_url (check_bracketed_host W) curr_url = Inr clean_url"
    by (auto simp: crawl_step_def split: sum.splits)
  show thesis
  proof (cases "clean_url \<in> set (visited st)")
    case True
    with assms cu have "st' = st\<lparr>to_visit := rest\<rparr>" by (simp add: crawl_step_def)
    then show ?thesis by (rule dropped)
  next
    case nv: False
    with assms cu obtain same where sd: "is_same_domain (check_bracketed_host W) (base_url cfg) clean_url = Inr same"
      by (auto simp: crawl_step_def split: sum.splits)
    show ?thesis
    proof (cases same)
      case False
      with assms cu nv sd have "st' = st\<lparr>to_visit := rest\<rparr>" by (simp add: crawl_step_def)
      then show ?thesis by (rule dropped)
    next
      case same: True
      with assms cu nv sd obtain within where
        wd: "is_within_depth (check_bracketed_host W) (base_url cfg) clean_url (max_depth cfg) = Inr within"
        by (auto simp: crawl_step_def split: sum.splits)
      show ?thesis
      proof (cases within)
        case False
        with assms cu nv sd same wd have "st' = st\<lparr>to_visit := rest\<rparr>" by (simp add: crawl_step_def)
        then show ?thesis by (rule dropped)
      next
        case within: True
        show ?thesis
        proof (cases "ignore_epubs cfg \<and> endswith (py_lower clean_url) ''.epub''")
          case True
          with assms cu nv sd same wd within
          have "st' = st\<lparr>to_visit := rest, visited := visited st @ [clean_url]\<rparr>"
            by (simp add: crawl_step_def)
          with nv sd same wd within show ?thesis by (intro epub [of clean_url]) simp_all
        next
          case False
          obtain new where new: "snd (fetch_page W cfg clean_url depth (visited st @ [clean_url]) rest) = rest @ new"
            "fresh_entries depth (visited st @ [clean_url]) rest new" "new \<noteq> [] \<longrightarrow> depth < max_depth cfg"
            using fetch_page_frontier by blast
          from False assms cu nv sd same wd within new(1)
          have "st' = \<lparr>visited = visited st @ [clean_url], to_visit = rest @ new,
              page_records = page_records st @ [\<lparr>page_url = clean_url, page_depth = depth,
                 page_body = fst (fetch_page W cfg clean_url depth (visited st @ [clean_url]) rest)\<rparr>],
              processed_content = dict_set clean_url
                (page_xml \<lparr>page_url = clean_url, page_depth = depth,
                   page_body = fst (fetch_page W cfg clean_url depth (visited st @ [clean_url]) rest)\<rparr>)
                (processed_content st)\<rparr>"
            by (auto simp: crawl_step_def Let_def)
          with nv sd same wd within new(2,3) show ?thesis by (intro page [of clean_url new]) simp_all
        qed
      qed
    qed
  qed
qed


lemma dict_set_fresh: "k \<notin> fst ` set ps \<Longrightarrow> dict_set k v ps = ps @ [(k, v)]"
  by (induction ps) auto

section \<open>Invariants of the crawl loop\<close>

lemma reachable_visited:
  assumes "crawl_reachable W cfg st"
  shows "distinct (visited st) \<and> set (map page_url (page_records st)) \<subseteq> set (visited st)
    \<and> distinct (map page_url (page_records st))
    \<and> map fst (processed_content st) = map page_url (page_records st)"
  using assms
proof (induction rule: crawl_reachable.induct)
  case start
  show ?case by (simp add: initial_state_def)
next
  case (step st st')
  obtain curr_url depth rest where tv: "to_visit st = (curr_url, depth) # rest"
    using step.hyps(2) by (cases "to_visit st") auto
  from tv step.hyps(3) show ?case
  proof (cases rule: crawl_step_cases)
    case dropped
    with step.IH show ?thesis by simp
  next
    case (epub clean_url)
    with step.IH show ?thesis by auto
  next
    case (page clean_url body new)
    from page(1) step.IH have "clean_url \<notin> fst ` set (processed_content st)"
      by (auto simp: image_iff) (metis fst_conv image_eqI list.set_map subsetD)
    then have "dict_set clean_url (page_xml \<lparr>page_url = clean_url, page_depth = depth, page_body = body\<rparr>)
        (processed_content st) = processed_content st @
          [(clean_url, page_xml \<lparr>page_url = clean_url, page_depth = depth, page_body = body\<rparr>)]"
      by (rule dict_set_fresh)
    with page step.IH show ?thesis by auto
  qed
qed

lemma reachable_scope:
  assumes "crawl_reachable W cfg st" and "u \<in> set (visited st)"
  shows "is_same_domain (check_bracketed_host W) (base_url cfg) u = Inr True
    \<and> is_within_depth (check_bracketed_host W) (base_url cfg) u (max_depth cfg) = Inr True"
  using assms
proof (induction rule: crawl_reachable.induct)
  case start
  then show ?case by (simp add: initial_state_def)
next
  case (step st st')
  obtain curr_url depth rest where tv: "to_visit st = (curr_url, depth) # rest"
    using step.hyps(2) by (cases "to_visit st") auto
  from tv step.hyps(3) show ?case
  proof (cases rule: crawl_step_cases)
    case dropped
    with step.IH step.prems show ?thesis by simp
  next
    case (epub clean_url)
    with step.IH step.prems show ?thesis by auto
  next
    case (page clean_url body new)
    with step.IH step.prems show ?thesis by auto
  qed
qed

lemma reachable_frontier_distinct:
  assumes "crawl_reachable W cfg st"
  shows "distinct (to_visit st)"
  using assms
proof (induction rule: crawl_reachable.induct)
  case start
  show ?case by (simp add: initial_state_def)
next
  case (step st st')
  obtain curr_url depth rest where tv: "to_visit st = (curr_url, depth) # rest"
    using step.hyps(2) by (cases "to_visit st") auto
  from step.IH tv have rest: "distinct rest" by simp
  from tv step.hyps(3) show ?case
  proof (cases rule: crawl_step_cases)
    case dropped
    with rest show ?thesis by simp
  next
    case (epub clean_url)
    with rest show ?thesis by simp
  next
    case (page clean_url body new)
    with rest show ?thesis by (auto simp: fresh_entries_def)
  qed
qed

text \<open>Breadth first: the depths of the records so far, followed by the depths waiting in
  the frontier, never decrease, and the frontier spans at most two levels.\<close>

lemma reachable_fifo:
  assumes "crawl_reachable W cfg st"
  shows "sorted (map page_depth (page_records st) @ map snd (to_visit st))
    \<and> (\<forall>e \<in> set (to_visit st). snd e \<le> snd (hd (to_visit st)) + 1)"
  using assms
proof (induction rule: crawl_reachable.induct)
  case start
  show ?case by (simp add: initial_state_def)
next
  case (step st st')
  obtain curr_url depth rest where tv: "to_visit st = (curr_url, depth) # rest"
    using step.hyps(2) by (cases "to_visit st") auto
  from step.IH tv have
    recs: "sorted (map page_depth (page_records st))"
    and recs_le: "\<forall>d \<in> set (map page_depth (page_records st)). d \<le> depth"
    and rest_sorted: "sorted (map snd rest)"
    and rest_ge: "\<forall>e \<in> set rest. depth \<le> snd e"
    and rest_le: "\<forall>e \<in> set rest. snd e \<le> depth + 1"
    and recs_rest: "\<forall>d \<in> set (map page_depth (page_records st)). \<forall>e \<in> set rest. d \<le> snd e"
    by (auto simp: sorted_append)
  have hd_rest: "rest \<noteq> [] \<Longrightarrow> depth \<le> snd (hd rest)"
    using rest_ge by (cases rest) auto
  have dropped_ok: "sorted (map page_depth (page_records st) @ map snd rest)
      \<and> (\<forall>e \<in> set rest. snd e \<le> snd (hd rest) + 1)"
  proof
    show "sorted (map page_depth (page_records st) @ map snd rest)"
      using recs rest_sorted recs_rest by (auto simp: sorted_append)
    show "\<forall>e \<in> set rest. snd e \<le> snd (hd rest) + 1"
    proof
      fix e assume "e \<in> set rest"
      then have "rest \<noteq> []" "snd e \<le> depth + 1" using rest_le by auto
      with hd_rest show "snd e \<le> snd (hd rest) + 1" by fastforce
    qed
  qed
  from tv step.hyps(3) show ?case
  proof (cases rule: crawl_step_cases)
    case dropped
    with dropped_ok show ?thesis by simp
  next
    case (epub clean_url)
    with dropped_ok show ?thesis by simp
  next
    case (page clean_url body new)
    have new_d: "\<forall>e \<in> set new. snd e = depth + 1"
      using page(4) by (simp add: fresh_entries_def)
    have s1: "sorted (map snd (rest @ new))"
    proof -
      have "map snd new = replicate (length new) (depth + 1)"
        using new_d by (induction new) auto
      then have "sorted (map snd new)" by (simp add: sorted_replicate)
      with rest_sorted rest_le new_d show ?thesis by (auto simp: sorted_append)
    qed
    have s2: "sorted ((map page_depth (page_records st) @ [depth]) @ map snd (rest @ new))"
      using recs recs_le recs_rest rest_ge new_d s1 by (auto simp: sorted_append)
    have hd_new: "rest @ new \<noteq> [] \<Longrightarrow> depth \<le> snd (hd (rest @ new))"
      using hd_rest new_d by (cases rest; cases new) auto
    have s3: "\<forall>e \<in> set (rest @ new). snd e \<le> snd (hd (rest @ new)) + 1"
    proof
      fix e assume e: "e \<in> set (rest @ new)"
      then have "snd e \<le> depth + 1" using rest_le new_d by auto
      moreover from e have "rest @ new \<noteq> []" by (cases "rest @ new") auto
      then have "depth \<le> snd (hd (rest @ new))" by (rule hd_new)
      ultimately show "snd e \<le> snd (hd (rest @ new)) + 1" by simp
    qed
    from page(6) s2 s3 show ?thesis by simp
  qed
qed

text \<open>The state in which the loop ends is one of the reachable states.\<close>

lemma crawl_loop_reachable:
  "crawl_reachable W cfg st \<Longrightarrow> crawl_loop W cfg st = Inr st' \<Longrightarrow>
     crawl_reachable W cfg st' \<and> to_visit st' = []"
proof (induction W cfg st rule: crawl_loop.induct)
  case (1 W cfg st)
  show ?case
  proof (cases "to_visit st = []")
    case True
    with "1.prems" show ?thesis by (simp add: crawl_loop.simps [of W cfg st])
  next
    case False
    with "1.prems"(2) obtain st1 where st1: "crawl_step W cfg st = Inr st1" "crawl_loop W cfg st1 = Inr st'"
      by (auto simp: crawl_loop.simps [of W cfg st] split: sum.splits)
    from "1.prems"(1) False st1(1) have "crawl_reachable W cfg st1"
      by (rule crawl_reachable.step)
    with "1.IH" [OF False st1(1)] st1(2) show ?thesis by simp
  qed
qed


section \<open>The crawl of the small web\<close>

lemma demo_step1:
  "crawl_step demo_web demo_config (initial_state ''http://example.com/docs'') = Inr demo_state1"
  by code_simp

lemma demo_step2: "crawl_step demo_web demo_config demo_state1 = Inr demo_state2"
  by code_simp

lemma demo_crawl:
  "crawl_loop demo_web demo_config (initial_state ''http://example.com/docs'') = Inr demo_final"
  by code_simp

lemma demo_base: "base_url demo_config = ''http://example.com/docs''"
  by (simp add: demo_config_def crawl_config_def)

lemma demo_state1_reachable: "crawl_reachable demo_web demo_config demo_state1"
proof -
  have "crawl_reachable demo_web demo_config (initial_state ''http://example.com/docs'')"
    using crawl_reachable.start [of demo_web demo_config] by (simp add: demo_base)
  moreover have "to_visit (initial_state ''http://example.com/docs'') \<noteq> []"
    by (simp add: initial_state_def)
  ultimately show ?thesis using demo_step1 by (rule crawl_reachable.step)
qed

lemma demo_state2_reachable: "crawl_reachable demo_web demo_config demo_state2"
proof -
  have "to_visit demo_state1 \<noteq> []" by (simp add: demo_state1_def)
  with demo_state1_reachable show ?thesis using demo_step2 by (rule crawl_reachable.step)
qed

lemma demo_final_reachable: "crawl_reachable demo_web demo_config demo_final"
proof -
  have "crawl_reachable demo_web demo_config (initial_state ''http://example.com/docs'')"
    using crawl_reachable.start [of demo_web demo_config] by (simp add: demo_base)
  then show ?thesis using demo_crawl by (blast dest: crawl_loop_reachable)
qed

section \<open>Properties of the crawl\<close>

subsection \<open>C4: no duplicate visits\<close>

text \<open>
  C4. In every state the crawl loop reaches, for any web, base URL, \<open>max_depth\<close> and
  flags: no URL was added to the visited set twice (the list of the \<open>add\<close> calls has no
  repetition), and the output holds at most one page record per URL; so does the list of
  processed URLs. The web is arbitrary, so its link graph may have cycles. The state in
  which the loop ends is among the reachable ones (\<open>crawl_loop_reachable\<close>).
\<close>

theorem no_duplicate_visits:
  assumes "crawl_reachable W cfg st"
  shows "distinct (visited st) \<and> distinct (map page_url (page_records st))
    \<and> distinct (map fst (processed_content st))"
  using reachable_visited [OF assms] by simp

theorem no_duplicate_visits_witness:
  "crawl_reachable demo_web demo_config demo_final
   \<and> length (visited demo_final) = 5 \<and> distinct (visited demo_final)
   \<and> distinct (map page_url (page_records demo_final))"
  using demo_final_reachable no_duplicate_visits [OF demo_final_reachable]
  by (simp add: demo_final_def demo_pages_def)

subsection \<open>C5: domain containment\<close>

text \<open>
  C5. A URL whose host (\<open>netloc\<close>) differs from the host of the base URL is never in the
  visited set and never the URL of a page record, in any state the crawl reaches. This
  holds for every URL, so for the normalised URL of every discovered link.
\<close>

theorem domain_containment:
  assumes "crawl_reachable W cfg st"
    and "urlparse (check_bracketed_host W) (base_url cfg) = Inr pb"
    and "urlparse (check_bracketed_host W) u = Inr pu"
    and "netloc pu \<noteq> netloc pb"
  shows "u \<notin> set (visited st) \<and> u \<notin> set (map page_url (page_records st))"
proof -
  have "u \<notin> set (visited st)"
  proof
    assume "u \<in> set (visited st)"
    with assms(1) have "is_same_domain (check_bracketed_host W) (base_url cfg) u = Inr True"
      by (simp add: reachable_scope)
    with assms(2,3,4) show False by (simp add: is_same_domain_def)
  qed
  moreover have "set (map page_url (page_records st)) \<subseteq> set (visited st)"
    using reachable_visited [OF assms(1)] by simp
  ultimately show ?thesis by blast
qed

lemma demo_parse_base:
  "urlparse (check_bracketed_host demo_web) ''http://example.com/docs'' =
     Inr \<lparr>scheme = ''http'', netloc = ''example.com'', path = ''/docs'', params = '''',
          query = '''', fragment = ''''\<rparr>"
  by code_simp

lemma demo_parse_other_host:
  "urlparse (check_bracketed_host demo_web) ''http://other.org/docs/x'' =
     Inr \<lparr>scheme = ''http'', netloc = ''other.org'', path = ''/docs/x'', params = '''',
          query = '''', fragment = ''''\<rparr>"
  by code_simp

theorem domain_containment_witness:
  "''http://other.org/docs/x'' \<in> set (hrefs (projr (http_get demo_web ''http://example.com/docs'')))
   \<and> ''http://other.org/docs/x'' \<notin> set (visited demo_final)
   \<and> ''http://other.org/docs/x'' \<notin> set (map page_url (page_records demo_final))"
proof -
  have "netloc \<lparr>scheme = ''http'', netloc = ''other.org'', path = ''/docs/x'', params = '''',
          query = '''', fragment = ''''\<rparr>
      \<noteq> netloc \<lparr>scheme = ''http'', netloc = ''example.com'', path = ''/docs'', params = '''',
          query = '''', fragment = ''''\<rparr>"
    by simp
  from domain_containment [OF demo_final_reachable _ demo_parse_other_host this]
  have "''http://other.org/docs/x'' \<notin> set (visited demo_final)
   \<and> ''http://other.org/docs/x'' \<notin> set (map page_url (page_records demo_final))"
    using demo_parse_base by (simp add: demo_base)
  moreover have "''http://other.org/docs/x'' \<in> set (hrefs (projr (http_get demo_web ''http://example.com/docs'')))"
    by (simp add: demo_web_def demo_http_get_def)
  ultimately show ?thesis by simp
qed

subsection \<open>C6: depth containment\<close>

text \<open>
  C6. For every page record the crawl produces, the number of \<open>'/'\<close>-split segments of
  the record's path, trailing slashes stripped, minus that of the base path is at most
  \<open>max_depth\<close>. (No assumption on the sign of \<open>max_depth\<close> is needed.)
\<close>

theorem depth_containment:
  assumes "crawl_reachable W cfg st" and "r \<in> set (page_records st)"
  shows "\<exists>pb pr. urlparse (check_bracketed_host W) (base_url cfg) = Inr pb
    \<and> urlparse (check_bracketed_host W) (page_url r) = Inr pr
    \<and> path_segment_delta (path pb) (path pr) \<le> max_depth cfg"
proof -
  from assms have "page_url r \<in> set (visited st)"
    using reachable_visited [OF assms(1)] by auto
  with assms(1) have "is_within_depth (check_bracketed_host W) (base_url cfg) (page_url r) (max_depth cfg) = Inr True"
    by (simp add: reachable_scope)
  then show ?thesis
    by (auto simp: is_within_depth_def path_segment_delta_def Let_def split: sum.splits if_splits)
qed

lemma demo_parse_paper:
  "urlparse (check_bracketed_host demo_web) ''http://example.com/docs/paper.pdf'' =
     Inr \<lparr>scheme = ''http'', netloc = ''example.com'', path = ''/docs/paper.pdf'', params = '''',
          query = '''', fragment = ''''\<rparr>"
  by code_simp

theorem depth_containment_witness:
  "demo_page ''http://example.com/docs/paper.pdf'' 1
        ''\<newline>&lt;error&gt;Failed to download PDF: 404 Client Error: Not Found&lt;/error&gt;\<newline>''
     \<in> set (page_records demo_final)
   \<and> path_segment_delta ''/docs'' ''/docs/paper.pdf'' = 1
   \<and> path_segment_delta ''/docs'' ''/docs/paper.pdf'' \<le> max_depth demo_config"
proof -
  have mem: "demo_page ''http://example.com/docs/paper.pdf'' 1
        ''\<newline>&lt;error&gt;Failed to download PDF: 404 Client Error: Not Found&lt;/error&gt;\<newline>''
     \<in> set (page_records demo_final)"
    by (simp add: demo_final_def demo_pages_def)
  from depth_containment [OF demo_final_reachable mem]
  have "path_segment_delta ''/docs'' ''/docs/paper.pdf'' \<le> max_depth demo_config"
    by (simp add: demo_base demo_parse_base demo_parse_paper demo_page_def)
  moreover have "path_segment_delta ''/docs'' ''/docs/paper.pdf'' = 1"
    by (simp add: path_segment_delta_def segment_count_def rstrip_char_def)
  ultimately show ?thesis using mem by simp
qed

subsection \<open>C7: FIFO ordering\<close>

text \<open>
  C7. In the output sequence, every page record dequeued at depth 0 stands before every
  page record dequeued at depth 1.
\<close>

theorem fifo_ordering:
  assumes "crawl_reachable W cfg st"
    and "i < length (page_records st)" and "j < length (page_records st)"
    and "page_depth (page_records st ! i) = 0" and "page_depth (page_records st ! j) = 1"
  shows "i < j"
proof (rule ccontr)
  assume "\<not> i < j"
  then have "j \<le> i" by simp
  moreover have "sorted (map page_depth (page_records st))"
    using reachable_fifo [OF assms(1)] by (simp add: sorted_append)
  ultimately have "map page_depth (page_records st) ! j \<le> map page_depth (page_records st) ! i"
    using assms(2) by (simp add: sorted_iff_nth_mono)
  with assms(2-5) show False by simp
qed

theorem fifo_ordering_witness:
  "page_depth (page_records demo_final ! 0) = 0 \<and> page_depth (page_records demo_final ! 3) = 1
   \<and> (0::nat) < 3 \<and> map page_depth (page_records demo_final) = [0, 1, 1, 1, 1]"
proof -
  have "(0::nat) < length (page_records demo_final)" "3 < length (page_records demo_final)"
    "page_depth (page_records demo_final ! 0) = 0" "page_depth (page_records demo_final ! 3) = 1"
    by (simp_all add: demo_final_def demo_pages_def demo_page_def)
  from this fifo_ordering [OF demo_final_reachable this] show ?thesis
    by (simp add: demo_final_def demo_pages_def demo_page_def)
qed

subsection \<open>C2: what is inserted into the frontier\<close>

text \<open>
  C2, as the code has it. A pass of the loop removes the head of the frontier and appends
  new entries; no appended entry has a URL that is in the visited set, none is already in
  the frontier as the same pair of URL and depth, and the frontier never holds the same
  pair twice. Presence in the queue is decided on the pair \<open>(url, depth + 1)\<close>, not on the
  URL alone.
\<close>

theorem frontier_insertions:
  assumes "crawl_reachable W cfg st" and "to_visit st = e # rest" and "crawl_step W cfg st = Inr st'"
  shows "distinct (to_visit st) \<and> (\<exists>new. to_visit st' = rest @ new \<and> distinct (to_visit st')
    \<and> (\<forall>x \<in> set new. fst x \<notin> set (visited st') \<and> x \<notin> set rest))"
proof -
  from assms have "crawl_reachable W cfg st'"
    by (intro crawl_reachable.step [of W cfg st st']) simp_all
  then have d: "distinct (to_visit st')" by (rule reachable_frontier_distinct)
  moreover have "distinct (to_visit st)" using assms(1) by (rule reachable_frontier_distinct)
  moreover have "\<exists>new. to_visit st' = rest @ new
    \<and> (\<forall>x \<in> set new. fst x \<notin> set (visited st') \<and> x \<notin> set rest)"
  proof -
    obtain curr_url depth where e: "e = (curr_url, depth)" by (cases e)
    from assms(2) [unfolded e] assms(3) show ?thesis
    proof (cases rule: crawl_step_cases)
      case dropped
      then show ?thesis by (intro exI [of _ "[]"]) simp
    next
      case (epub clean_url)
      then show ?thesis by (intro exI [of _ "[]"]) simp
    next
      case (page clean_url body new)
      then show ?thesis by (intro exI [of _ new]) (auto simp: fresh_entries_def)
    qed
  qed
  ultimately show ?thesis by blast
qed

theorem frontier_insertions_witness:
  "to_visit demo_state2 = tl (to_visit demo_state1) @ [(''http://example.com/docs/b'', 2)]
   \<and> distinct (to_visit demo_state2)
   \<and> ''http://example.com/docs/b'' \<notin> set (visited demo_state2)
   \<and> (''http://example.com/docs/b'', 2) \<notin> set (tl (to_visit demo_state1))"
proof -
  have tv: "to_visit demo_state1 = (''http://example.com/docs/a'', 1) # tl (to_visit demo_state1)"
    by (simp add: demo_state1_def)
  from frontier_insertions [OF demo_state1_reachable tv demo_step2]
  obtain new where "to_visit demo_state2 = tl (to_visit demo_state1) @ new"
    "distinct (to_visit demo_state2)" "distinct (to_visit demo_state1)"
    "\<forall>x \<in> set new. fst x \<notin> set (visited demo_state2) \<and> x \<notin> set (tl (to_visit demo_state1))"
    by blast
  then show ?thesis by (simp add: demo_state1_def demo_state2_def)
qed

text \<open>
  C2 as stated fails: after two passes over the small web the frontier holds
  \<open>/docs/b\<close> at depth 1 and again at depth 2. The second entry was appended while the
  first was waiting in the queue.
\<close>

theorem frontier_url_unique_counterexample:
  "\<not> (crawl_reachable demo_web demo_config demo_state2 \<longrightarrow> distinct (map fst (to_visit demo_state2)))"
  using demo_state2_reachable by (simp add: demo_state2_def)

subsection \<open>C1: error markers of the web-PDF extractor\<close>

text \<open>
  C1 at a PDF URL whose download fails, with \<open>include_pdfs\<close> set: \<open>process_web_pdf\<close>
  returns an \<open><error>\<close> marker, the crawl passes through only text that starts with
  \<open><e>\<close>, and so the marker is entity-escaped in the page body.
\<close>

theorem web_pdf_error_marker_escaped:
  "process_web_pdf demo_web ''http://example.com/docs/paper.pdf''
     = ''<error>Failed to download PDF: 404 Client Error: Not Found</error>''
   \<and> fst (fetch_page demo_web demo_config ''http://example.com/docs/paper.pdf'' 1
            [''http://example.com/docs/paper.pdf''] [])
     = ''\<newline>&lt;error&gt;Failed to download PDF: 404 Client Error: Not Found&lt;/error&gt;\<newline>''"
  by code_simp

lemma demo_parse_sibling:
  "urlparse (check_bracketed_host demo_web) ''http://example.com/docs-other'' =
     Inr \<lparr>scheme = ''http'', netloc = ''example.com'', path = ''/docs-other'', params = '''',
          query = '''', fragment = ''''\<rparr>"
  by code_simp

subsection \<open>C10: the scope predicate is a raw string-prefix test\<close>

text \<open>
  C10. Whenever both URLs parse, \<open>is_within_depth\<close> holds exactly if the candidate path
  without trailing slashes begins, as a string, with the base path without trailing
  slashes and the difference of their \<open>'/'\<close>-split segment counts is at most
  \<open>max_depth\<close>. For the base path \<open>/docs\<close> the sibling \<open>/docs-other\<close> is in scope with
  segment delta 0, and the crawl of the small web produces a page record for it.
\<close>

theorem is_within_depth_raw_prefix:
  "(urlparse cbh base = Inr pb \<longrightarrow> urlparse cbh candidate = Inr pc \<longrightarrow>
      is_within_depth cbh base candidate md = Inr (raw_prefix_scope (path pb) (path pc) md))
   \<and> raw_prefix_scope ''/docs'' ''/docs-other'' 0
   \<and> path_segment_delta ''/docs'' ''/docs-other'' = 0
   \<and> (\<exists>st. crawl_loop demo_web demo_config (initial_state ''http://example.com/docs'') = Inr st
         \<and> ''http://example.com/docs-other'' \<in> set (map page_url (page_records st)))"
proof -
  have "is_within_depth cbh base candidate md = Inr (raw_prefix_scope (path pb) (path pc) md)"
    if "urlparse cbh base = Inr pb" "urlparse cbh candidate = Inr pc"
    using that
    by (simp add: is_within_depth_def raw_prefix_scope_def path_segment_delta_def startswith_def Let_def)
  moreover have "raw_prefix_scope ''/docs'' ''/docs-other'' 0"
    by (simp add: raw_prefix_scope_def path_segment_delta_def segment_count_def rstrip_char_def)
  moreover have "path_segment_delta ''/docs'' ''/docs-other'' = 0"
    by (simp add: path_segment_delta_def segment_count_def rstrip_char_def)
  moreover have "''http://example.com/docs-other'' \<in> set (map page_url (page_records demo_final))"
    by (simp add: demo_final_def demo_pages_def demo_page_def)
  ultimately show ?thesis using demo_crawl by blast
qed

theorem is_within_depth_raw_prefix_witness:
  "is_within_depth (check_bracketed_host demo_web) ''http://example.com/docs''
      ''http://example.com/docs-other'' 0 = Inr True"
proof -
  have "raw_prefix_scope ''/docs'' ''/docs-other'' 0"
    by (simp add: raw_prefix_scope_def path_segment_delta_def segment_count_def rstrip_char_def)
  with is_within_depth_raw_prefix [of "check_bracketed_host demo_web" "''http://example.com/docs''"
      "\<lparr>scheme = ''http'', netloc = ''example.com'', path = ''/docs'', params = '''',
          query = '''', fragment = ''''\<rparr>" "''http://example.com/docs-other''"
      "\<lparr>scheme = ''http'', netloc = ''example.com'', path = ''/docs-other'', params = '''',
          query = '''', fragment = ''''\<rparr>" 0]
    demo_parse_base demo_parse_sibling
  show ?thesis by simp
qed


section \<open>Searching in strings\<close>

lemma py_find_None_iff: "py_find c s = None \<longleftrightarrow> c \<notin> set s"
  by (induction s) auto

lemma py_find_append: "c \<notin> set a \<Longrightarrow> py_find c (a @ c # b) = Some (length a)"
  by (induction a) auto

lemma py_find_decomp:
  assumes "py_find c s = Some i"
  shows "\<exists>a b. s = a @ c # b \<and> c \<notin> set a \<and> i = length a"
proof -
  from assms have "c \<in> set s" using py_find_None_iff [of c s] by auto
  then obtain a b where s: "s = a @ c # b" "c \<notin> set a"
    by (auto dest: split_list_first)
  with assms have "i = length a" by (simp add: py_find_append)
  with s show ?thesis by blast
qed

lemma takeWhile_neq_append: "c \<notin> set a \<Longrightarrow> takeWhile (\<lambda>x. x \<noteq> c) (a @ c # b) = a"
  by (induction a) auto

lemma dropWhile_neq_append: "c \<notin> set a \<Longrightarrow> dropWhile (\<lambda>x. x \<noteq> c) (a @ c # b) = c # b"
  by (induction a) auto

lemma split_first_append: "c \<notin> set a \<Longrightarrow> split_first c (a @ c # b) = (a, b)"
  by (simp add: split_first_def takeWhile_neq_append dropWhile_neq_append)

lemma split_first_decomp:
  assumes "c \<in> set s"
  shows "s = fst (split_first c s) @ c # snd (split_first c s) \<and> c \<notin> set (fst (split_first c s))"
proof -
  from assms obtain a b where s: "s = a @ c # b" "c \<notin> set a"
    by (auto dest: split_list_first)
  then show ?thesis by (simp add: split_first_append)
qed

text \<open>A run of characters followed by a delimiter, or by nothing.\<close>

lemma takeWhile_until:
  assumes "\<forall>c \<in> set a. P c" and "b = [] \<or> \<not> P (hd b)"
  shows "takeWhile P (a @ b) = a" and "dropWhile P (a @ b) = b"
  using assms by (cases b; simp add: takeWhile_append dropWhile_append)+

section \<open>The last segment of a path\<close>

lemma last_segment_no_slash: "CHR ''/'' \<notin> set (last_segment x)"
  by (auto simp: last_segment_def dest: set_takeWhileD)

lemma last_segment_whole: "CHR ''/'' \<notin> set b \<Longrightarrow> last_segment b = b"
proof -
  assume "CHR ''/'' \<notin> set b"
  then have tw: "takeWhile (\<lambda>c. c \<noteq> CHR ''/'') (rev b) = rev b"
    by (auto simp: takeWhile_eq_all_conv)
  show ?thesis unfolding last_segment_def tw by simp
qed

lemma last_segment_decomp:
  "\<exists>a. x = a @ last_segment x \<and> (a = [] \<or> last a = CHR ''/'')"
proof (cases "CHR ''/'' \<in> set x")
  case False
  then have "last_segment x = x" by (rule last_segment_whole)
  then show ?thesis by simp
next
  case True
  then obtain a b where x: "x = a @ CHR ''/'' # b" "CHR ''/'' \<notin> set b"
    by (auto dest: split_list_last)
  then have "last_segment x = b"
    by (simp add: last_segment_def takeWhile_neq_append)
  with x show ?thesis by (intro exI [of _ "a @ ''/''"]) simp
qed

lemma last_segment_after_slash:
  "CHR ''/'' \<notin> set b \<Longrightarrow> last_segment (a @ CHR ''/'' # b) = b"
  by (simp add: last_segment_def takeWhile_neq_append)

lemma last_segment_append:
  assumes "CHR ''/'' \<notin> set b"
  shows "last_segment (x @ b) = last_segment x @ b"
  using assms by (simp add: last_segment_def takeWhile_append)

lemma last_segment_Cons_slash: "last_segment (CHR ''/'' # x) = last_segment x"
proof (cases "CHR ''/'' \<in> set x")
  case True
  then obtain a b where x: "x = a @ CHR ''/'' # b" "CHR ''/'' \<notin> set b"
    by (auto dest: split_list_last)
  then show ?thesis
    using last_segment_after_slash [of b "CHR ''/'' # a"] last_segment_after_slash [of b a] by simp
next
  case False
  then show ?thesis
    using last_segment_after_slash [of x "[]"] by (simp add: last_segment_whole)
qed

section \<open>\<open>_splitparams\<close>\<close>

lemma py_rfind_None: "CHR ''/'' \<notin> set b \<Longrightarrow> py_rfind CHR ''/'' b = None"
  by (simp add: py_rfind_def py_find_None_iff)

lemma py_rfind_last: "c \<notin> set b \<Longrightarrow> py_rfind c (a @ c # b) = Some (length a)"
proof -
  assume "c \<notin> set b"
  then have "py_find c (rev b @ c # rev a) = Some (length b)"
    using py_find_append [of c "rev b" "rev a"] by simp
  then show ?thesis by (simp add: py_rfind_def)
qed

lemma splitparams_decomp:
  assumes "CHR ''/'' \<notin> set b" and "a = [] \<or> last a = CHR ''/''"
  shows "splitparams (a @ b) =
     (if CHR '';'' \<in> set b
      then (a @ takeWhile (\<lambda>c. c \<noteq> CHR '';'') b, tl (dropWhile (\<lambda>c. c \<noteq> CHR '';'') b))
      else if a = [] then (butlast b, b) else (a @ b, []))"
proof (cases "a = []")
  case True
  show ?thesis
  proof (cases "CHR '';'' \<in> set b")
    case False
    with True assms show ?thesis
      by (simp add: splitparams_def py_rfind_None py_find_None_iff [THEN iffD2])
  next
    case semi: True
    then obtain p q where b: "b = p @ CHR '';'' # q" "CHR '';'' \<notin> set p"
      by (auto dest: split_list_first)
    with True assms show ?thesis
      by (simp add: splitparams_def py_rfind_None py_find_append takeWhile_neq_append dropWhile_neq_append)
  qed
next
  case False
  with assms(2) obtain a' where a: "a = a' @ ''/''"
    by (metis append_butlast_last_id)
  have rf: "py_rfind CHR ''/'' (a @ b) = Some (length a')"
    using py_rfind_last [of "CHR ''/''" b a'] assms(1) by (simp add: a)
  have dr: "drop (length a') (a @ b) = CHR ''/'' # b" by (simp add: a)
  show ?thesis
  proof (cases "CHR '';'' \<in> set b")
    case False
    then have "py_find CHR '';'' (CHR ''/'' # b) = None" by (simp add: py_find_None_iff)
    with False \<open>a \<noteq> []\<close> rf dr show ?thesis
      by (simp add: splitparams_def py_find_from_def)
  next
    case semi: True
    then obtain p q where b: "b = p @ CHR '';'' # q" "CHR '';'' \<notin> set p"
      by (auto dest: split_list_first)
    then have "py_find CHR '';'' (CHR ''/'' # b) = Some (Suc (length p))"
      by (simp add: py_find_append)
    with semi rf dr have "splitparams (a @ b) =
        (take (length a' + Suc (length p)) (a @ b), drop (length a' + Suc (length p) + 1) (a @ b))"
      by (simp add: splitparams_def py_find_from_def)
    also have "\<dots> = (a @ p, q)" by (simp add: a b)
    finally show ?thesis using semi b by (simp add: takeWhile_neq_append dropWhile_neq_append)
  qed
qed



section \<open>Scheme characters\<close>

lemma scheme_chars_all:
  "\<forall>c \<in> set scheme_chars. lower_char c \<in> set scheme_chars
      \<and> lower_char (lower_char c) = lower_char c \<and> c \<noteq> CHR '':'' \<and> c \<notin> set unsafe_url_bytes"
  by code_simp

lemma ascii_letters_all:
  "\<forall>c \<in> set ascii_letters. lower_char c \<in> set ascii_letters \<and> \<not> c0_control_or_space c"
  by code_simp

lemma lower_scheme_char:
  "c \<in> set scheme_chars \<Longrightarrow> lower_char c \<in> set scheme_chars \<and> lower_char (lower_char c) = lower_char c"
  using scheme_chars_all by blast

lemma lower_ascii_letter: "c \<in> set ascii_letters \<Longrightarrow> lower_char c \<in> set ascii_letters"
  using ascii_letters_all by blast

lemma ascii_letter_kept: "c \<in> set ascii_letters \<Longrightarrow> \<not> c0_control_or_space c"
  using ascii_letters_all by blast

lemma scheme_char_no_colon: "c \<in> set scheme_chars \<Longrightarrow> c \<noteq> CHR '':''"
  using scheme_chars_all by blast

lemma scheme_char_safe: "c \<in> set scheme_chars \<Longrightarrow> c \<notin> set unsafe_url_bytes"
  using scheme_chars_all by blast

lemma scheme_like_lower:
  assumes "t \<noteq> []" and "hd t \<in> set ascii_letters" and "\<forall>c \<in> set t. c \<in> set scheme_chars"
  shows "scheme_like (py_lower t)"
proof -
  have "hd (py_lower t) \<in> set ascii_letters"
    using assms(1,2) by (cases t) (auto simp: py_lower_def lower_ascii_letter)
  moreover have "set (py_lower t) \<subseteq> set scheme_chars"
    using assms(3) by (auto simp: py_lower_def lower_scheme_char)
  moreover have "py_lower (py_lower t) = py_lower t"
    using assms(3) by (simp add: py_lower_def lower_scheme_char)
  ultimately show ?thesis using assms(1) by (simp add: scheme_like_def py_lower_def)
qed

lemma split_scheme_result:
  assumes "split_scheme u = (s, r)" and "s \<noteq> []"
  shows "scheme_like s \<and> set r \<subseteq> set u"
proof -
  from assms obtain i where i: "py_find CHR '':'' u = Some i" "0 < i" "hd u \<in> set ascii_letters"
    "\<forall>c \<in> set (take i u). c \<in> set scheme_chars" "s = py_lower (take i u)" "r = drop (i + 1) u"
    by (auto simp: split_scheme_def split: option.splits if_splits)
  from i(1) obtain a b where u: "u = a @ CHR '':'' # b" "i = length a"
    using py_find_decomp by blast
  with i(2) have "take i u \<noteq> []" "hd (take i u) = hd u" by (cases a; simp)+
  with i(3,4) have "scheme_like (py_lower (take i u))" by (intro scheme_like_lower) simp_all
  moreover have "set r \<subseteq> set u" unfolding i(6) by (rule set_drop_subset)
  ultimately show ?thesis using i(5) by simp
qed

lemma split_scheme_compose:
  assumes "scheme_like s"
  shows "split_scheme (s @ CHR '':'' # rest) = (s, rest)"
proof -
  from assms have s: "s \<noteq> []" "hd s \<in> set ascii_letters" "set s \<subseteq> set scheme_chars" "py_lower s = s"
    by (simp_all add: scheme_like_def)
  from s(3) have "CHR '':'' \<notin> set s" using scheme_char_no_colon by blast
  then have "py_find CHR '':'' (s @ CHR '':'' # rest) = Some (length s)" by (rule py_find_append)
  moreover have "hd (s @ CHR '':'' # rest) = hd s" using s(1) by simp
  ultimately show ?thesis using s by (auto simp: split_scheme_def)
qed

lemma strip_url_kept:
  assumes "v \<noteq> []" and "\<not> c0_control_or_space (hd v)" and "\<forall>c \<in> set v. c \<notin> set unsafe_url_bytes"
  shows "strip_url v = v"
proof -
  from assms(1,2) have "dropWhile c0_control_or_space v = v" by (cases v) auto
  with assms(3) show ?thesis by (simp add: strip_url_def)
qed

lemma strip_url_safe: "c \<in> set (strip_url u) \<Longrightarrow> c \<notin> set unsafe_url_bytes"
  by (simp add: strip_url_def)



section \<open>What a parse guarantees\<close>

lemma split_at_facts:
  assumes "(if c \<in> set x then split_first c x else (x, [])) = (a, b)"
  shows "c \<notin> set a \<and> set a \<subseteq> set x \<and> set b \<subseteq> set x"
proof (cases "c \<in> set x")
  case False
  with assms show ?thesis by auto
next
  case True
  from split_first_decomp [OF True] assms True
  have "x = a @ c # b" "c \<notin> set a" by simp_all
  then show ?thesis by auto
qed

lemma splitparams_facts:
  assumes "CHR '';'' \<in> set x" and "splitparams x = (pth, prm)"
  shows "set pth \<subseteq> set x \<and> set prm \<subseteq> set x
    \<and> CHR '';'' \<notin> set (last_segment pth) \<and> CHR ''/'' \<notin> set prm"
proof -
  obtain a where x: "x = a @ last_segment x" and a: "a = [] \<or> last a = CHR ''/''"
    using last_segment_decomp by blast
  define b where "b = last_segment x"
  have b: "CHR ''/'' \<notin> set b" unfolding b_def by (rule last_segment_no_slash)
  have xab: "x = a @ b" using x by (simp add: b_def)
  note sp = splitparams_decomp [OF b a]
  show ?thesis
  proof (cases "CHR '';'' \<in> set b")
    case True
    define t where "t = takeWhile (\<lambda>c. c \<noteq> CHR '';'') b"
    from True sp assms(2) have pp: "pth = a @ t" "prm = tl (dropWhile (\<lambda>c. c \<noteq> CHR '';'') b)"
      by (simp_all add: xab t_def)
    have t: "set t \<subseteq> set b" "CHR '';'' \<notin> set t"
      unfolding t_def by (auto dest: set_takeWhileD)
    have "set prm \<subseteq> set b"
      unfolding pp(2) by (metis (no_types, lifting) list.set_sel(2) set_dropWhileD subsetI tl_Nil)
    moreover have "last_segment pth = t"
    proof (cases "a = []")
      case True
      with t(1) b show ?thesis by (auto simp: pp(1) intro: last_segment_whole)
    next
      case False
      with a obtain a' where "a = a' @ ''/''" by (metis append_butlast_last_id)
      moreover have "CHR ''/'' \<notin> set t" using t(1) b by auto
      ultimately show ?thesis by (simp add: pp(1) last_segment_after_slash)
    qed
    ultimately show ?thesis using t b by (auto simp: pp(1) xab)
  next
    case False
    with assms(1) have "a \<noteq> []" by (auto simp: xab)
    with False sp assms(2) have "pth = x" "prm = []" by (simp_all add: xab)
    with False show ?thesis by (simp add: b_def)
  qed
qed

lemma urlparse_composable:
  assumes "urlparse cbh u = Inr p" and "scheme p \<noteq> []"
  shows "composable cbh p"
proof -
  from assms(1) obtain sch nl url qry frag where
    us: "urlsplit cbh u = Inr (sch, nl, url, qry, frag)"
    by (auto simp: urlparse_def split: sum.splits)
  define pp where "pp = (if sch \<in> set uses_params \<and> CHR '';'' \<in> set url then splitparams url else (url, []))"
  from assms(1) us have p: "p = \<lparr>scheme = sch, netloc = nl, path = fst pp, params = snd pp,
      query = qry, fragment = frag\<rparr>"
    by (auto simp: urlparse_def pp_def case_prod_beta Let_def)
  obtain r where ss: "split_scheme (strip_url u) = (sch, r)"
    using us by (auto simp: urlsplit_def Let_def split: prod.splits option.splits)
  define nr where "nr = (if take 2 r = ''//'' then splitnetloc2 r else ([], r))"
  from us ss have nl: "nl = fst nr" and chk: "check_netloc_brackets cbh nl = None"
    by (auto simp: urlsplit_def Let_def nr_def split: prod.splits option.splits)
  define fr where "fr = split_fragment (snd nr)"
  define qr where "qr = split_query (fst fr)"
  from us ss have uq: "url = fst qr" "qry = snd qr"
    by (auto simp: urlsplit_def Let_def nr_def fr_def qr_def split: prod.splits option.splits)
  from assms(2) p have sch: "sch \<noteq> []" by simp
  from split_scheme_result [OF ss sch] have sl: "scheme_like sch" and r: "set r \<subseteq> set (strip_url u)"
    by simp_all
  have nr: "set (fst nr) \<subseteq> set r" "set (snd nr) \<subseteq> set r" "\<forall>c \<in> set (fst nr). \<not> netloc_delim c"
    by (auto simp: nr_def splitnetloc2_def dest: set_takeWhileD set_dropWhileD in_set_dropD)
  have fr: "CHR ''#'' \<notin> set (fst fr)" "set (fst fr) \<subseteq> set (snd nr)"
    using split_at_facts [of "CHR ''#''" "snd nr" "fst fr" "snd fr"]
    by (simp_all add: fr_def split_fragment_def)
  have qr: "CHR ''?'' \<notin> set (fst qr)" "set (fst qr) \<subseteq> set (fst fr)" "set (snd qr) \<subseteq> set (fst fr)"
    using split_at_facts [of "CHR ''?''" "fst fr" "fst qr" "snd qr"]
    by (simp_all add: qr_def split_query_def)
  have pp: "set (fst pp) \<subseteq> set url" "set (snd pp) \<subseteq> set url"
    "snd pp = [] \<or> sch \<in> set uses_params"
    "sch \<in> set uses_params \<longrightarrow> CHR '';'' \<notin> set (last_segment (fst pp)) \<and> CHR ''/'' \<notin> set (snd pp)"
  proof -
    show "snd pp = [] \<or> sch \<in> set uses_params" by (simp add: pp_def)
    show "set (fst pp) \<subseteq> set url" "set (snd pp) \<subseteq> set url"
      using splitparams_facts [of url "fst (splitparams url)" "snd (splitparams url)"]
      by (auto simp: pp_def)
    show "sch \<in> set uses_params \<longrightarrow> CHR '';'' \<notin> set (last_segment (fst pp)) \<and> CHR ''/'' \<notin> set (snd pp)"
    proof (cases "CHR '';'' \<in> set url")
      case True
      then show ?thesis
        using splitparams_facts [of url "fst (splitparams url)" "snd (splitparams url)"]
        by (simp add: pp_def)
    next
      case False
      then have "fst pp = url" "snd pp = []" by (simp_all add: pp_def)
      moreover have "set (last_segment url) \<subseteq> set url"
        unfolding last_segment_def by (auto dest: set_takeWhileD)
      ultimately show ?thesis using False by auto
    qed
  qed
  have safe: "\<forall>c \<in> set r. c \<notin> set unsafe_url_bytes"
    using r strip_url_safe by blast
  have all_r: "set nl \<subseteq> set r" "set (fst pp) \<subseteq> set r" "set (snd pp) \<subseteq> set r" "set qry \<subseteq> set r"
    using nr fr qr pp uq nl by auto
  have no_q: "CHR ''?'' \<notin> set (fst pp @ snd pp)"
    using qr(1) pp(1,2) uq(1) by auto
  have no_h: "CHR ''#'' \<notin> set (fst pp @ snd pp @ qry)"
    using fr(1) qr(2,3) pp(1,2) uq by auto
  show ?thesis
    unfolding composable_def p
    using sl safe all_r nr(3) nl chk no_q no_h pp(3,4) by auto
qed



section \<open>Parsing a composed URL\<close>

lemma not_double_slash:
  assumes "take 2 P \<noteq> ''//''" and "q = [] \<or> hd q = CHR ''?''"
  shows "take 2 (P @ q) \<noteq> ''//''"
proof (cases P)
  case Nil
  with assms(2) show ?thesis by (cases q) auto
next
  case (Cons a P')
  show ?thesis
  proof (cases P')
    case Nil
    with Cons assms(2) show ?thesis by (cases q) auto
  next
    case (Cons b P'')
    with \<open>P = a # P'\<close> assms(1) show ?thesis by simp
  qed
qed

lemma splitparams_recompose:
  assumes "CHR '';'' \<notin> set (last_segment Z)" and "CHR ''/'' \<notin> set prm" and "prm \<noteq> []"
  shows "splitparams (Z @ CHR '';'' # prm) = (Z, prm)"
proof -
  obtain a where Z: "Z = a @ last_segment Z" and a: "a = [] \<or> last a = CHR ''/''"
    using last_segment_decomp by blast
  define b where "b = last_segment Z"
  have "CHR ''/'' \<notin> set (b @ CHR '';'' # prm)"
    using assms(2) last_segment_no_slash [of Z] by (simp add: b_def)
  from splitparams_decomp [OF this a]
  have "splitparams (a @ b @ CHR '';'' # prm) = (a @ b, prm)"
    using assms(1) by (simp add: b_def takeWhile_neq_append dropWhile_neq_append)
  moreover have "Z = a @ b" using Z by (simp add: b_def)
  ultimately show ?thesis by simp
qed

lemma splitparams_none:
  assumes "CHR '';'' \<notin> set (last_segment Z)" and "CHR '';'' \<in> set Z"
  shows "splitparams Z = (Z, [])"
proof -
  obtain a where Z: "Z = a @ last_segment Z" and a: "a = [] \<or> last a = CHR ''/''"
    using last_segment_decomp by blast
  from assms Z have "a \<noteq> []" by auto
  with splitparams_decomp [OF last_segment_no_slash a, of Z] assms(1) Z show ?thesis by simp
qed

text \<open>The string \<open>geturl\<close> builds from a composable result without fragment, and how
  \<open>urlparse\<close> reads it back.\<close>

lemma urlparse_geturl:
  assumes "composable cbh p"
  shows "\<exists>p'. urlparse cbh (geturl (p\<lparr>fragment := []\<rparr>)) = Inr p' \<and> scheme p' = scheme p
    \<and> geturl (p'\<lparr>fragment := []\<rparr>) = geturl (p\<lparr>fragment := []\<rparr>)"
proof -
  define sch nl pth prm qry where "sch = scheme p" and "nl = netloc p" and "pth = path p"
    and "prm = params p" and "qry = query p"
  note names = sch_def nl_def pth_def prm_def qry_def
  from assms have sl: "scheme_like sch"
    and safe: "\<forall>c \<in> set (nl @ pth @ prm @ qry). c \<notin> set unsafe_url_bytes"
    and nodelim: "\<forall>c \<in> set nl. \<not> netloc_delim c"
    and chk: "check_netloc_brackets cbh nl = None"
    and no_q: "CHR ''?'' \<notin> set (pth @ prm)"
    and no_h: "CHR ''#'' \<notin> set (pth @ prm @ qry)"
    and prm_uses: "prm = [] \<or> sch \<in> set uses_params"
    and seg: "sch \<in> set uses_params \<longrightarrow> CHR '';'' \<notin> set (last_segment pth) \<and> CHR ''/'' \<notin> set prm"
    by (simp_all add: composable_def names)
  from sl have sch: "sch \<noteq> []" "hd sch \<in> set ascii_letters" "set sch \<subseteq> set scheme_chars"
    by (simp_all add: scheme_like_def)
  define P where "P = (if prm \<noteq> [] then pth @ '';'' @ prm else pth)"
  define cond where "cond \<longleftrightarrow> nl \<noteq> [] \<or> sch \<in> set uses_netloc \<or> take 2 P = ''//''"
  define slash where "slash \<longleftrightarrow> cond \<and> P \<noteq> [] \<and> take 1 P \<noteq> ''/''"
  define Z where "Z = (if slash then ''/'' @ pth else pth)"
  define X where "X = (if prm \<noteq> [] then Z @ '';'' @ prm else Z)"
  define body where "body = (if cond then ''//'' @ nl @ X else X)"
  define qpart where "qpart = (if qry \<noteq> [] then ''?'' @ qry else [])"
  define v where "v = sch @ CHR '':'' # body @ qpart"
  have X_P: "X = (if slash then ''/'' @ P else P)"
    by (simp add: X_def Z_def P_def)
  have X_head: "cond \<Longrightarrow> X = [] \<or> hd X = CHR ''/''"
    unfolding X_P slash_def by (cases P) auto
  have X_nocond: "\<not> cond \<Longrightarrow> X = P"
    by (simp add: X_P slash_def)
  have unsplit: "urlunsplit sch nl P qry [] = v"
  proof (cases cond)
    case True
    then have "X = (if P \<noteq> [] \<and> take 1 P \<noteq> ''/'' then ''/'' @ P else P)"
      by (simp add: X_P slash_def)
    with True sch(1) show ?thesis
      unfolding urlunsplit_def Let_def v_def body_def qpart_def
      by (simp add: cond_def)
  next
    case False
    with sch(1) X_nocond [OF False] show ?thesis
      unfolding urlunsplit_def Let_def v_def body_def qpart_def
      by (simp add: cond_def)
  qed
  have "geturl (p\<lparr>fragment := []\<rparr>) = urlunsplit sch nl P qry []"
    by (simp add: geturl_def P_def names)
  with unsplit have v: "geturl (p\<lparr>fragment := []\<rparr>) = v" by simp
  \<comment> \<open>the characters of the composed string\<close>
  have P_chars: "set P \<subseteq> set pth \<union> set prm \<union> {CHR '';''}"
    by (auto simp: P_def)
  have X_chars: "set X \<subseteq> set pth \<union> set prm \<union> {CHR '';'', CHR ''/''}"
    using P_chars by (auto simp: X_P)
  have X_no_q: "CHR ''?'' \<notin> set X" and X_no_h: "CHR ''#'' \<notin> set X"
    using X_chars no_q no_h by auto
  have [simp]: "CHR '';'' \<notin> set unsafe_url_bytes" "CHR ''/'' \<notin> set unsafe_url_bytes"
    "CHR ''?'' \<notin> set unsafe_url_bytes" "CHR '':'' \<notin> set unsafe_url_bytes"
    by (simp_all add: unsafe_url_bytes_def)
  have X_safe: "\<forall>c \<in> set X. c \<notin> set unsafe_url_bytes"
    using X_chars safe by auto
  have body_safe: "\<forall>c \<in> set body. c \<notin> set unsafe_url_bytes"
    using X_safe safe by (auto simp: body_def)
  have qpart_safe: "\<forall>c \<in> set qpart. c \<notin> set unsafe_url_bytes"
    using safe by (auto simp: qpart_def)
  have v_safe: "\<forall>c \<in> set v. c \<notin> set unsafe_url_bytes"
    using body_safe qpart_safe sch(3) scheme_char_safe by (auto simp: v_def)
  \<comment> \<open>step by step through \<open>urlsplit\<close>\<close>
  have "hd v = hd sch" "v \<noteq> []" using sch(1) by (simp_all add: v_def)
  with sch(2) v_safe have s1: "strip_url v = v"
    by (intro strip_url_kept) (simp_all add: ascii_letter_kept)
  have s2: "split_scheme v = (sch, body @ qpart)"
    unfolding v_def by (rule split_scheme_compose [OF sl])
  have qpart_head: "qpart = [] \<or> hd qpart = CHR ''?''"
    by (simp add: qpart_def)
  have s3: "(if take 2 (body @ qpart) = ''//'' then splitnetloc2 (body @ qpart) else ([], body @ qpart))
      = (nl, X @ qpart)"
  proof (cases cond)
    case True
    have "X @ qpart = [] \<or> netloc_delim (hd (X @ qpart))"
      using X_head [OF True] qpart_head by (cases X) (auto simp: netloc_delim_def)
    then have "X @ qpart = [] \<or> \<not> \<not> netloc_delim (hd (X @ qpart))" by simp
    from takeWhile_until [of nl "\<lambda>c. \<not> netloc_delim c" "X @ qpart", OF nodelim this]
    have "takeWhile (\<lambda>c. \<not> netloc_delim c) (nl @ X @ qpart) = nl"
      "dropWhile (\<lambda>c. \<not> netloc_delim c) (nl @ X @ qpart) = X @ qpart"
      by simp_all
    with True show ?thesis by (simp add: body_def splitnetloc2_def)
  next
    case False
    then have "nl = []" "take 2 P \<noteq> ''//''" by (simp_all add: cond_def)
    with False not_double_slash [OF _ qpart_head] show ?thesis
      by (simp add: body_def X_nocond)
  qed
  have s4: "split_fragment (X @ qpart) = (X @ qpart, [])"
    using X_no_h no_h by (auto simp: split_fragment_def qpart_def)
  have s5: "split_query (X @ qpart) = (X, qry)"
  proof (cases "qry = []")
    case True
    with X_no_q show ?thesis by (simp add: split_query_def qpart_def)
  next
    case False
    with X_no_q split_first_append [of "CHR ''?''" X qry] show ?thesis
      by (simp add: split_query_def qpart_def)
  qed
  have us: "urlsplit cbh v = Inr (sch, nl, X, qry, [])"
    by (simp only: urlsplit_def s1 s2 s3 chk s4 s5 Let_def prod.case option.case)
  \<comment> \<open>the parameters\<close>
  have Z_seg: "last_segment Z = last_segment pth"
    by (simp add: Z_def last_segment_Cons_slash)
  have s6: "(if sch \<in> set uses_params \<and> CHR '';'' \<in> set X then splitparams X else (X, [])) = (Z, prm)"
  proof (cases "prm = []")
    case False
    with prm_uses seg have "sch \<in> set uses_params" "CHR '';'' \<notin> set (last_segment Z)" "CHR ''/'' \<notin> set prm"
      by (simp_all add: Z_seg)
    with False splitparams_recompose [of Z prm] show ?thesis by (simp add: X_def)
  next
    case True
    show ?thesis
    proof (cases "sch \<in> set uses_params \<and> CHR '';'' \<in> set X")
      case False
      with True show ?thesis by (auto simp: X_def)
    next
      case both: True
      with seg have "CHR '';'' \<notin> set (last_segment Z)" by (simp add: Z_seg)
      with both True splitparams_none [of Z] show ?thesis by (simp add: X_def)
    qed
  qed
  define p' where "p' = \<lparr>scheme = sch, netloc = nl, path = Z, params = prm, query = qry, fragment = []\<rparr>"
  have parse: "urlparse cbh v = Inr p'"
    by (simp only: urlparse_def us s6 p'_def Let_def prod.case sum.case)
  \<comment> \<open>composing again\<close>
  have cond': "(nl \<noteq> [] \<or> sch \<in> set uses_netloc \<or> take 2 X = ''//'') \<longleftrightarrow> cond"
  proof (cases "nl \<noteq> [] \<or> sch \<in> set uses_netloc")
    case True
    then show ?thesis by (auto simp: cond_def)
  next
    case False
    have "X = P" unfolding X_P slash_def cond_def using False by (cases P) auto
    with False show ?thesis by (simp add: cond_def)
  qed
  have X_again: "cond \<Longrightarrow> (if X \<noteq> [] \<and> take 1 X \<noteq> ''/'' then ''/'' @ X else X) = X"
    using X_head by (cases X) auto
  have "geturl (p'\<lparr>fragment := []\<rparr>) = urlunsplit sch nl X qry []"
    by (simp add: geturl_def p'_def X_def)
  moreover have "urlunsplit sch nl X qry [] = v"
  proof (cases cond)
    case True
    with sch(1) cond' X_again [OF True] show ?thesis
      unfolding urlunsplit_def Let_def v_def body_def qpart_def by simp
  next
    case False
    with sch(1) cond' show ?thesis
      unfolding urlunsplit_def Let_def v_def body_def qpart_def by simp
  qed
  ultimately have "geturl (p'\<lparr>fragment := []\<rparr>) = v" by simp
  with parse v show ?thesis by (intro exI [of _ p']) (simp add: p'_def sch_def)
qed



section \<open>Idempotence of URL normalisation\<close>

lemma normalize_url_with_scheme:
  assumes "urlparse cbh u = Inr p" and "scheme p \<noteq> []"
  shows "normalize_url cbh u = Inr (geturl (p\<lparr>fragment := []\<rparr>))"
    and "normalize_url cbh (geturl (p\<lparr>fragment := []\<rparr>)) = Inr (geturl (p\<lparr>fragment := []\<rparr>))"
proof -
  show "normalize_url cbh u = Inr (geturl (p\<lparr>fragment := []\<rparr>))"
    using assms by (simp add: normalize_url_def)
  from assms have "composable cbh p" by (rule urlparse_composable)
  then obtain p' where p': "urlparse cbh (geturl (p\<lparr>fragment := []\<rparr>)) = Inr p'" "scheme p' = scheme p"
    "geturl (p'\<lparr>fragment := []\<rparr>) = geturl (p\<lparr>fragment := []\<rparr>)"
    using urlparse_geturl by blast
  with assms(2) show "normalize_url cbh (geturl (p\<lparr>fragment := []\<rparr>)) = Inr (geturl (p\<lparr>fragment := []\<rparr>))"
    by (simp add: normalize_url_def)
qed

lemma urlparse_http_prefix:
  assumes "urlparse cbh (''http://'' @ x) = Inr pv"
  shows "scheme pv = ''http''"
proof -
  have "strip_url (''http://'' @ x) = ''http://'' @ filter (\<lambda>c. c \<notin> set unsafe_url_bytes) x"
    by (simp add: strip_url_def c0_control_or_space_def unsafe_url_bytes_def)
  moreover have "split_scheme (''http://'' @ y) = (''http'', ''//'' @ y)" for y
    by (simp add: split_scheme_def ascii_letters_def scheme_chars_def py_lower_def lower_char_def
        upper_letters_def lower_letters_def)
  ultimately show ?thesis
    using assms
    by (auto simp: urlparse_def urlsplit_def Let_def split: sum.splits prod.splits option.splits)
qed

text \<open>
  C9, as the code has it. Normalisation is idempotent at every URL that parses with an
  explicit scheme: \<open>normalize(normalize(u)) = normalize(u)\<close>. For any URL at all, the
  normalised URL is a point where normalisation is idempotent: once \<open>normalize(u) = v\<close>
  and \<open>normalize(v) = w\<close> are defined, \<open>normalize(w) = w\<close>.
\<close>

theorem normalize_url_idempotent:
  "(urlparse cbh u = Inr p \<longrightarrow> scheme p \<noteq> [] \<longrightarrow> normalize_idempotent_at cbh u)
   \<and> (normalize_url cbh u = Inr v \<longrightarrow> normalize_idempotent_at cbh v)"
proof
  show "urlparse cbh u = Inr p \<longrightarrow> scheme p \<noteq> [] \<longrightarrow> normalize_idempotent_at cbh u"
    using normalize_url_with_scheme [of cbh u p] by (simp add: normalize_idempotent_at_def)
  show "normalize_url cbh u = Inr v \<longrightarrow> normalize_idempotent_at cbh v"
  proof
    assume nu: "normalize_url cbh u = Inr v"
    then obtain p where p: "urlparse cbh u = Inr p"
      by (auto simp: normalize_url_def split: sum.splits)
    show "normalize_idempotent_at cbh v"
    proof (cases "scheme p = []")
      case False
      with p nu normalize_url_with_scheme [of cbh u p] show ?thesis
        by (simp add: normalize_idempotent_at_def)
    next
      case True
      with p nu have v: "v = ''http://'' @ geturl (p\<lparr>fragment := []\<rparr>)"
        by (simp add: normalize_url_def)
      show ?thesis
      proof (cases "urlparse cbh v")
        case (Inl e)
        then show ?thesis by (simp add: normalize_idempotent_at_def normalize_url_def)
      next
        case (Inr pv)
        then have "scheme pv = ''http''" using urlparse_http_prefix [of cbh _ pv] by (simp add: v)
        then have "scheme pv \<noteq> []" by simp
        with Inr normalize_url_with_scheme [of cbh v pv] show ?thesis
          by (simp add: normalize_idempotent_at_def)
      qed
    qed
  qed
qed

lemma demo_parse_mixed:
  "urlparse no_host_check ''HTTP://Example.com/a/b;p?q=1#frag'' =
     Inr \<lparr>scheme = ''http'', netloc = ''Example.com'', path = ''/a/b'', params = ''p'',
          query = ''q=1'', fragment = ''frag''\<rparr>"
  by code_simp

lemma demo_normalize_mixed:
  "normalize_url no_host_check ''HTTP://Example.com/a/b;p?q=1#frag'' = Inr ''http://Example.com/a/b;p?q=1''"
  by code_simp

lemma demo_normalize_schemeless:
  "normalize_url no_host_check ''//a;'' = Inr ''http:////a;''"
  by code_simp

lemma demo_normalize_schemeless2:
  "normalize_url no_host_check ''http:////a;'' = Inr ''http:////a''"
  by code_simp

theorem normalize_url_idempotent_witness:
  "normalize_url no_host_check ''HTTP://Example.com/a/b;p?q=1#frag'' = Inr ''http://Example.com/a/b;p?q=1''
   \<and> normalize_url no_host_check ''http://Example.com/a/b;p?q=1'' = Inr ''http://Example.com/a/b;p?q=1''
   \<and> normalize_url no_host_check ''http:////a;'' = Inr ''http:////a''
   \<and> normalize_url no_host_check ''http:////a'' = Inr ''http:////a''"
proof -
  from normalize_url_idempotent [of no_host_check "''HTTP://Example.com/a/b;p?q=1#frag''"
      "\<lparr>scheme = ''http'', netloc = ''Example.com'', path = ''/a/b'', params = ''p'',
          query = ''q=1'', fragment = ''frag''\<rparr>"]
  have "normalize_idempotent_at no_host_check ''HTTP://Example.com/a/b;p?q=1#frag''"
    using demo_parse_mixed by simp
  then have a: "normalize_url no_host_check ''http://Example.com/a/b;p?q=1'' = Inr ''http://Example.com/a/b;p?q=1''"
    by (simp add: normalize_idempotent_at_def demo_normalize_mixed)
  from normalize_url_idempotent [of no_host_check "''//a;''" _ "''http:////a;''"]
  have "normalize_idempotent_at no_host_check ''http:////a;''"
    using demo_normalize_schemeless by simp
  then have b: "normalize_url no_host_check ''http:////a'' = Inr ''http:////a''"
    by (simp add: normalize_idempotent_at_def demo_normalize_schemeless2)
  from a b show ?thesis by (simp add: demo_normalize_mixed demo_normalize_schemeless2)
qed

text \<open>
  C9 as stated fails for a URL without scheme: \<open>//a;\<close> is normalised to
  \<open>http:////a;\<close>, in which the former host is part of the path, so that normalising again
  drops the empty parameter and gives \<open>http:////a\<close>.
\<close>

theorem normalize_url_idempotent_counterexample:
  "\<not> normalize_idempotent_at no_host_check ''//a;''"
  by (simp add: normalize_idempotent_at_def demo_normalize_schemeless demo_normalize_schemeless2)




section \<open>The driver: no input is processed\<close>

lemma and_then_None [simp]: "and_then None rest = rest"
  by (simp add: and_then_def)

lemma and_then_Some [simp]: "and_then (Some e) rest = Inl e"
  by (simp add: and_then_def)

lemma unless_returned_SomeD:
  assumes "unless_returned block rest = Inr (Some r)"
  shows "\<exists>x. block = Inr (Some x) \<and> rest x = Inr (Some r)"
  using assms by (auto simp: unless_returned_def split: sum.splits option.splits)

text \<open>Which blocks of \<open>main\<close> assign \<open>is_stream_input_mode\<close> and \<open>stream_content\<close>: only
  lines 876 to 888, and they assign \<open>True\<close> together with a text that is not empty.\<close>

lemma format_option_keeps:
  assumes "format_option T l = Inr (Some l')"
  shows "is_stream_input_mode l' = is_stream_input_mode l \<and> stream_content l' = stream_content l"
  using assms
  by (auto simp: format_option_def Let_def and_then_def split: option.splits if_splits exn.splits)

lemma stream_source_assigns:
  assumes "stream_source T l = Inr (Some l')" and "is_stream_input_mode l = None"
  shows "is_stream_input_mode l' = None
    \<or> (is_stream_input_mode l' = Some True \<and> truthy (stream_content l'))"
  using assms
  by (auto simp: stream_source_def and_then_def split: if_splits option.splits sum.splits)

lemma collect_inputs_keeps:
  assumes "collect_inputs T l = Inr (Some l')"
  shows "is_stream_input_mode l' = is_stream_input_mode l \<and> stream_content l' = stream_content l"
  using assms
  by (auto simp: collect_inputs_def and_then_def split: if_splits option.splits sum.splits)

lemma prompt_for_input_keeps:
  assumes "prompt_for_input T argv l = Inr (Some l')"
  shows "is_stream_input_mode l' = is_stream_input_mode l \<and> stream_content l' = stream_content l"
  using assms
  by (auto simp: prompt_for_input_def Let_def and_then_def
      split: if_splits option.splits sum.splits bool.splits)

lemma exit_without_input_keeps:
  assumes "exit_without_input T l = Inr (Some l')"
  shows "l' = l"
  using assms
  by (auto simp: exit_without_input_def and_then_def
      split: if_splits option.splits sum.splits bool.splits)

lemma main_inputs_stream:
  assumes "main_inputs T argv = Inr (Some l)"
  shows "is_stream_input_mode l = None
    \<or> (is_stream_input_mode l = Some True \<and> truthy (stream_content l))"
proof -
  from assms obtain l1 where 1: "format_option T (initial_locals argv) = Inr (Some l1)"
    and r1: "unless_returned (stream_source T l1) (\<lambda>l.
               unless_returned (collect_inputs T l) (\<lambda>l.
               unless_returned (prompt_for_input T argv l) (\<lambda>l.
               exit_without_input T l))) = Inr (Some l)"
    unfolding main_inputs_def by (blast dest: unless_returned_SomeD)
  from r1 obtain l2 where 2: "stream_source T l1 = Inr (Some l2)"
    and r2: "unless_returned (collect_inputs T l2) (\<lambda>l.
               unless_returned (prompt_for_input T argv l) (\<lambda>l.
               exit_without_input T l)) = Inr (Some l)"
    by (blast dest: unless_returned_SomeD)
  from r2 obtain l3 where 3: "collect_inputs T l2 = Inr (Some l3)"
    and r3: "unless_returned (prompt_for_input T argv l3) (\<lambda>l. exit_without_input T l) = Inr (Some l)"
    by (blast dest: unless_returned_SomeD)
  from r3 obtain l4 where 4: "prompt_for_input T argv l3 = Inr (Some l4)"
    and 5: "exit_without_input T l4 = Inr (Some l)"
    by (blast dest: unless_returned_SomeD)
  from 1 have "is_stream_input_mode l1 = None"
    using format_option_keeps [OF 1] by (simp add: initial_locals_def)
  from stream_source_assigns [OF 2 this]
  have "is_stream_input_mode l2 = None
    \<or> (is_stream_input_mode l2 = Some True \<and> truthy (stream_content l2))" .
  then show ?thesis
    using collect_inputs_keeps [OF 3] prompt_for_input_keeps [OF 4] exit_without_input_keeps [OF 5]
    by simp
qed

text \<open>With \<open>is_stream_input_mode\<close> in one of these two states, lines 906 to 917 raise or
  process the stream: the branch of the inputs does not run.\<close>

lemma gather_outputs_unassigned:
  assumes "is_stream_input_mode l = None"
  shows "gather_outputs T W C l = Inl (UnboundLocalError ''is_stream_input_mode'')"
  using assms by (simp add: gather_outputs_def read_is_stream_input_mode_def)

lemma gather_outputs_stream:
  assumes "is_stream_input_mode l = Some True" and "truthy (stream_content l)"
  shows "gather_outputs T W C l = gather_outputs T W' C' l"
  using assms
  by (auto simp: gather_outputs_def read_is_stream_input_mode_def truthy_def split: option.splits)

lemma main_without_handlers: "main T W C argv = main T W' C' argv"
proof (cases "main_inputs T argv")
  case (Inl e)
  then show ?thesis by (simp add: main_def)
next
  case (Inr r)
  show ?thesis
  proof (cases r)
    case None
    with Inr show ?thesis by (simp add: main_def)
  next
    case (Some l)
    with Inr have "main_inputs T argv = Inr (Some l)" by simp
    from main_inputs_stream [OF this]
    have "gather_outputs T W C l = gather_outputs T W' C' l"
      using gather_outputs_unassigned [of l] gather_outputs_stream [of l] by metis
    with Inr Some show ?thesis by (simp add: main_def)
  qed
qed

text \<open>A run whose arguments are paths or URLs (each contains one of the characters
  \<open>. / : \<close> and the backslash, so none is an option or an alias): no line assigns
  \<open>is_stream_input_mode\<close>, the conditions of lines 897 and 904 do not read it because
  \<open>input_paths\<close> is not empty, and line 907 reads it.\<close>

lemma options_are_alias_like:
  "is_potential_alias ''--help''" "is_potential_alias ''-h''" "is_potential_alias ''--format''"
  "is_potential_alias ''-f''" "is_potential_alias ''-''" "is_potential_alias ''--clipboard''"
  "is_potential_alias ''-c''" "is_potential_alias ''--add-alias''"
  "is_potential_alias ''--alias-from-clipboard''"
  by (simp_all add: is_potential_alias_def)

lemma resolve_args_plain:
  assumes "\<forall>a \<in> set args. \<not> is_potential_alias a"
  shows "resolve_args T args paths = Inr (paths @ args)"
  using assms
  by (induction args arbitrary: paths) (simp_all add: resolve_single_input_source_def)

lemma main_inputs_plain:
  assumes "args \<noteq> []" and "\<forall>a \<in> set (prog # args). \<not> is_potential_alias a"
  shows "main_inputs T (prog # args) = Inr (Some ((initial_locals (prog # args))\<lparr>input_paths := args\<rparr>))"
proof -
  from assms(2) have no: "\<And>f. is_potential_alias f \<Longrightarrow> f \<notin> set args" by auto
  have flags: "''--format'' \<notin> set args" "''-f'' \<notin> set args" "''-'' \<notin> set args"
    "''--clipboard'' \<notin> set args" "''-c'' \<notin> set args"
    by (rule no, simp add: options_are_alias_like)+
  from assms(1) have "hd args \<in> set args" by simp
  with no have first: "hd args \<noteq> ''--add-alias''" "hd args \<noteq> ''--alias-from-clipboard''"
    using options_are_alias_like by metis+
  from assms(2) have "resolve_args T args [] = Inr args"
    using resolve_args_plain [of args T "[]"] by simp
  with assms(1) flags first show ?thesis
    by (simp add: main_inputs_def initial_locals_def format_option_def stream_source_def
        collect_inputs_def prompt_for_input_def nothing_to_process_def exit_without_input_def
        unless_returned_def)
qed

lemma main_plain:
  assumes "args \<noteq> []" and "\<forall>a \<in> set (prog # args). \<not> is_potential_alias a"
  shows "main T W C (prog # args) = Inl (UnboundLocalError ''is_stream_input_mode'')"
proof -
  from assms(2) have "''--help'' \<notin> set (prog # args)" "''-h'' \<notin> set (prog # args)"
    using options_are_alias_like by blast+
  then show ?thesis
    using main_inputs_plain [OF assms]
    by (simp add: main_def gather_outputs_unassigned initial_locals_def)
qed

text \<open>What the loop of lines 913 to 917 gives for these inputs when it is run on its
  own.\<close>

lemma demo_process_paths:
  "process_paths demo_environment demo_web demo_handlers 0
     [''/valid/local/file.txt'', ''not-a-real://input''] [] = Inr demo_blocks"
  by code_simp

text \<open>The handler of \<open>process_input\<close> prints before it returns: what the print raises
  leaves \<open>process_input\<close>.\<close>

lemma process_input_print_raises:
  assumes "dispatch_processing T W C process_config s = Inl e"
    and "console_print T (''\<newline>[red]Error processing '' @ [CHR 0x27] @ s @ [CHR 0x27] @ '': ''
           @ exn_str e @ ''[/red]'') = Some e'"
  shows "process_input T W C s None = Inl e'"
  using assms by (simp add: process_input_def)

lemma process_input_caught:
  assumes "dispatch_processing T W C process_config s = Inl e"
    and "console_print T (''\<newline>[red]Error processing '' @ [CHR 0x27] @ s @ [CHR 0x27] @ '': ''
           @ exn_str e @ ''[/red]'') = None"
    and "print_exception T = None"
  shows "process_input T W C s None = Inr (error_block s (exn_str e))"
  using assms by (simp add: process_input_def)

text \<open>
  C3. The claim is that each requested input gives one source block and that the final
  document holds one block per input. The program does not do that. Whatever the
  environment, the web and the handlers are: when every argument of the command line is a
  path or a URL (none is an option or an alias name) and there is at least one, \<open>main\<close>
  raises \<open>UnboundLocalError\<close> at line 907, where it reads \<open>is_stream_input_mode\<close>; line 860
  assigned \<open>stream_input_mode\<close> instead. No input has been passed to \<open>process_input\<close> at
  that point, and no document is written. For every command line the result of \<open>main\<close> is
  the same for all handlers and all webs: the loop over the inputs never runs.
\<close>

theorem main_never_processes_inputs:
  "(args \<noteq> [] \<and> (\<forall>a \<in> set (prog # args). \<not> is_potential_alias a) \<longrightarrow>
      main T W C (prog # args) = Inl (UnboundLocalError ''is_stream_input_mode''))
   \<and> main T W C argv = main T W' C' argv"
  using main_plain [of args prog T W C] main_without_handlers [of T W C argv W' C'] by blast

theorem main_never_processes_inputs_witness:
  "\<not> is_potential_alias ''onefilellm.py'' \<and> \<not> is_potential_alias ''/valid/local/file.txt''
   \<and> \<not> is_potential_alias ''not-a-real://input''
   \<and> main demo_environment demo_web demo_handlers
        [''onefilellm.py'', ''/valid/local/file.txt'', ''not-a-real://input'']
      = Inl (UnboundLocalError ''is_stream_input_mode'')"
proof -
  have plain: "\<not> is_potential_alias ''onefilellm.py''" "\<not> is_potential_alias ''/valid/local/file.txt''"
    "\<not> is_potential_alias ''not-a-real://input''"
    by (simp_all add: is_potential_alias_def)
  with main_never_processes_inputs
    [of "[''/valid/local/file.txt'', ''not-a-real://input'']" "''onefilellm.py''"
      demo_environment demo_web demo_handlers]
  show ?thesis by simp
qed

end
